theory Spec2Isabelle
  imports Complex_Main "HOL-Library.Sublist" "HOL-Library.List_Lexorder" "HOL-Library.Char_ord"
    "HOL-Library.Multiset"
begin

section \<open>arc-apps export: the data of internal/cmd/root.go\<close>

text \<open>
  Go strings are byte sequences: \<^typ>\<open>string\<close> (a \<^typ>\<open>char list\<close>, one \<^typ>\<open>char\<close> per byte).
  \<open>sort.Strings\<close> orders them byte-wise and lexicographically, which is the order of
  \<^typ>\<open>char list\<close> given by the lexicographic list order over the byte order of \<^typ>\<open>char\<close>;
  since equal strings cannot be told apart, the sorted permutation is unique and
  \<^const>\<open>sort\<close> computes it. Go's \<open>int\<close> (a slice length) and \<open>int64\<close> (a file size) are
  \<^typ>\<open>int\<close>: the program does no arithmetic on them.
\<close>

record exportStats =
  AppBundleCount :: int
  ApplicationsDirCount :: int
  UserApplicationsCount :: int
  BrewCaskCount :: int
  BrewFormulaCount :: int

text \<open>
  \<open>StartedAt\<close> and \<open>CompletedAt\<close> are instants in nanoseconds; \<open>DurationSeconds\<close> is their
  difference in seconds as a real number (the rounding of float64 is left out).
\<close>

record exportResult =
  ReportPath :: string
  ReportSizeBytes :: int
  BrewJSONPath :: string
  BrewJSONSizeBytes :: int
  Compact :: bool
  Stats :: exportStats
  DurationSeconds :: real
  StartedAt :: int
  CompletedAt :: int
  Warnings :: "string list"

text \<open>The field \<open>compact\<close> of the source is \<open>compactMode\<close> here.\<close>

record exportOptions =
  reportPath :: string
  jsonPath :: string
  compactMode :: bool

text \<open>
  Errors. \<open>CLIError\<close> is the structured error of the SDK with its message, hint and
  suggestions; every other error (of the operating system, of a subprocess) is carried
  by its message, which is all the program reads of it (\<open>%v\<close>).
\<close>

datatype error = CLIError (Msg: string) (Hint: string) (Suggestions: "string list") | OSError string

section \<open>The world the export runs in\<close>

text \<open>
  What one subprocess does: the bytes it prints (standard output and standard error as
  they arrive), the part printed on standard error, and the error \<open>cmd.Run\<close> reports
  (a non-zero exit status, a failure to start), if any.
\<close>

record procResult =
  combined :: string
  errOutput :: string
  failure :: "string option"

datatype statResult = StatOk | StatNotExist | StatFail string

text \<open>
  A directory tree as \<open>filepath.WalkDir\<close> sees it: an entry that is not a directory, a
  directory with its entries in the order \<open>os.ReadDir\<close> returns them, or a directory
  whose \<open>os.ReadDir\<close> fails. Each node carries its name.
\<close>

datatype fsnode = NonDir string | Dir string "fsnode list" | Unreadable string string

fun nodeName :: "fsnode \<Rightarrow> string" where
  "nodeName (NonDir n) = n"
| "nodeName (Dir n es) = n"
| "nodeName (Unreadable n e) = n"

text \<open>
  The answers of the operating system and of the external programs, one field per call
  the program makes. \<open>writeErr n\<close> is the error of a write to the report when \<open>n\<close> bytes
  have been written so far; \<open>statSize\<close> is the size \<open>os.Stat\<close> reports.
\<close>

record env =
  lookPath :: "string \<Rightarrow> bool"
  absPath :: "string \<Rightarrow> string + string"
  dirOf :: "string \<Rightarrow> string"
  joinPath :: "string \<Rightarrow> string \<Rightarrow> string"
  mkdirAll :: "string \<Rightarrow> string option"
  createFile :: "string \<Rightarrow> string option"
  writeErr :: "nat \<Rightarrow> string option"
  flushErr :: "string option"
  runCmd :: "string list \<Rightarrow> procResult"
  readDir :: "string \<Rightarrow> string + string list"
  userHomeDir :: string
  statPath :: "string \<Rightarrow> statResult"
  lstatTree :: "string \<Rightarrow> string + fsnode"
  statSize :: "string \<Rightarrow> int option"
  timeStart :: int
  timeEnd :: int

text \<open>
  The state of one run of \<open>runExport\<close>: its local variables (\<open>result\<close>, \<open>stats\<close>,
  \<open>absReport\<close>, \<open>absJSON\<close>) and its effects: the bytes written to the report, the files
  created, the directories made, the commands executed and the paths the Caskroom walk
  handed to its callback, each in order.
\<close>

record state =
  result :: exportResult
  stats :: exportStats
  absReport :: string
  absJSON :: string
  report :: string
  created :: "string list"
  madeDirs :: "string list"
  executed :: "string list list"
  walked :: "string list"

section \<open>Strings\<close>

text \<open>
  \<open>strings.TrimSpace\<close> removes leading and trailing Unicode white space. On the bytes of
  a string that is a leading or trailing UTF-8 encoding of one of the white-space code
  points: U+0009 to U+000D, U+0020, U+0085, U+00A0, U+1680, U+2000 to U+200A, U+2028,
  U+2029, U+202F, U+205F, U+3000.
\<close>

definition spaceRunes :: "string list" where
  "spaceRunes =
     [[CHR 0x09], [CHR 0x0A], [CHR 0x0B], [CHR 0x0C], [CHR 0x0D], [CHR 0x20],
      [CHR 0xC2, CHR 0x85], [CHR 0xC2, CHR 0xA0],
      [CHR 0xE1, CHR 0x9A, CHR 0x80],
      [CHR 0xE2, CHR 0x80, CHR 0x80], [CHR 0xE2, CHR 0x80, CHR 0x81],
      [CHR 0xE2, CHR 0x80, CHR 0x82], [CHR 0xE2, CHR 0x80, CHR 0x83],
      [CHR 0xE2, CHR 0x80, CHR 0x84], [CHR 0xE2, CHR 0x80, CHR 0x85],
      [CHR 0xE2, CHR 0x80, CHR 0x86], [CHR 0xE2, CHR 0x80, CHR 0x87],
      [CHR 0xE2, CHR 0x80, CHR 0x88], [CHR 0xE2, CHR 0x80, CHR 0x89],
      [CHR 0xE2, CHR 0x80, CHR 0x8A],
      [CHR 0xE2, CHR 0x80, CHR 0xA8], [CHR 0xE2, CHR 0x80, CHR 0xA9],
      [CHR 0xE2, CHR 0x80, CHR 0xAF], [CHR 0xE2, CHR 0x81, CHR 0x9F],
      [CHR 0xE3, CHR 0x80, CHR 0x80]]"

definition leadingSpace :: "string \<Rightarrow> string option" where
  "leadingSpace s = find (\<lambda>p. prefix p s) spaceRunes"

definition trailingSpace :: "string \<Rightarrow> string option" where
  "trailingSpace s = find (\<lambda>p. suffix p s) spaceRunes"

lemma spaceRunes_nonempty: "p \<in> set spaceRunes \<Longrightarrow> p \<noteq> []"
  by (auto simp: spaceRunes_def)

lemma leadingSpace_Some: "leadingSpace s = Some p \<Longrightarrow> p \<noteq> [] \<and> prefix p s"
  by (auto simp: leadingSpace_def find_Some_iff spaceRunes_nonempty)

lemma trailingSpace_Some: "trailingSpace s = Some p \<Longrightarrow> p \<noteq> [] \<and> suffix p s"
  by (auto simp: trailingSpace_def find_Some_iff spaceRunes_nonempty)

function trimLeft :: "string \<Rightarrow> string" where
  "trimLeft s = (case leadingSpace s of None \<Rightarrow> s | Some p \<Rightarrow> trimLeft (drop (length p) s))"
  by pat_completeness auto
termination
proof (relation "measure length")
  show "wf (measure length)" by simp
next
  fix s p assume "leadingSpace s = Some p"
  then have "p \<noteq> []" "prefix p s" using leadingSpace_Some by blast+
  then have "s \<noteq> []" by auto
  with \<open>p \<noteq> []\<close> show "(drop (length p) s, s) \<in> measure length" by simp
qed

function trimRight :: "string \<Rightarrow> string" where
  "trimRight s =
     (case trailingSpace s of None \<Rightarrow> s | Some p \<Rightarrow> trimRight (take (length s - length p) s))"
  by pat_completeness auto
termination
proof (relation "measure length")
  show "wf (measure length)" by simp
next
  fix s p assume "trailingSpace s = Some p"
  then have "p \<noteq> []" "suffix p s" using trailingSpace_Some by blast+
  then have "s \<noteq> []" by auto
  with \<open>p \<noteq> []\<close> show "(take (length s - length p) s, s) \<in> measure length" by simp
qed

declare trimLeft.simps [simp del] trimRight.simps [simp del]

definition TrimSpace :: "string \<Rightarrow> string" where
  "TrimSpace s = trimRight (trimLeft s)"

definition TrimPrefix :: "string \<Rightarrow> string \<Rightarrow> string" where
  "TrimPrefix s p = (if prefix p s then drop (length p) s else s)"

text \<open>\<open>strings.Split(s, "\n")\<close>: the pieces between the newline bytes, at least one.\<close>

fun Split :: "string \<Rightarrow> string list" where
  "Split [] = [[]]"
| "Split (c # cs) =
     (if c = CHR 0x0A then [] # Split cs
      else (case Split cs of [] \<Rightarrow> [[c]] | l # ls \<Rightarrow> (c # l) # ls))"

text \<open>\<open>strings.Join\<close>.\<close>

fun Join :: "string list \<Rightarrow> string \<Rightarrow> string" where
  "Join [] sep = []"
| "Join [x] sep = x"
| "Join (x # y # ys) sep = x @ sep @ Join (y # ys) sep"

section \<open>The helpers of root.go\<close>

text \<open>\<open>ensureCommand\<close> (lines 477-489).\<close>

definition ensureCommand :: "env \<Rightarrow> string \<Rightarrow> string \<Rightarrow> error option" where
  "ensureCommand env name hint =
     (if lookPath env name then None
      else Some (CLIError (name @ '' is required but not found in PATH'') hint
                  [''which '' @ name, ''echo $PATH'']))"

text \<open>\<open>wrapCommandErr\<close> (lines 491-503): no error in, no error out.\<close>

definition wrapCommandErr :: "string \<Rightarrow> string option \<Rightarrow> string \<Rightarrow> error option" where
  "wrapCommandErr cmdName err hint =
     (case err of
        None \<Rightarrow> None
      | Some e \<Rightarrow>
          Some (CLIError (cmdName @ '' failed: '' @ e)
                 (if hint = [] then
                    ''Re-run with verbose logging or manually execute `'' @ cmdName @ ''` for details.''
                  else hint)
                 []))"

text \<open>
  A write to the buffered report writer: it fails as the environment says, and appends
  the bytes otherwise. \<open>fmt.Fprintln(w, line)\<close> writes the line and a newline.
\<close>

definition writeBytes :: "env \<Rightarrow> string \<Rightarrow> state \<Rightarrow> string option \<times> state" where
  "writeBytes env bytes s =
     (case writeErr env (length (report s)) of
        Some e \<Rightarrow> (Some e, s)
      | None \<Rightarrow> (None, s\<lparr>report := report s @ bytes\<rparr>))"

definition Fprintln :: "env \<Rightarrow> string \<Rightarrow> state \<Rightarrow> string option \<times> state" where
  "Fprintln env line s = writeBytes env (line @ [CHR 0x0A]) s"

text \<open>\<open>writeLines\<close> (lines 365-372): the loop stops at the first failed write.\<close>

fun writeLines :: "env \<Rightarrow> string list \<Rightarrow> state \<Rightarrow> string option \<times> state" where
  "writeLines env [] s = (None, s)"
| "writeLines env (line # lines) s =
     (case Fprintln env line s of
        (Some e, s') \<Rightarrow> (Some e, s')
      | (None, s') \<Rightarrow> writeLines env lines s')"

text \<open>\<open>writeSectionHeader\<close> (lines 355-363): the same loop over the four parts.\<close>

definition divider :: string where
  "divider = ''===============================''"

definition writeSectionHeader :: "env \<Rightarrow> string \<Rightarrow> state \<Rightarrow> string option \<times> state" where
  "writeSectionHeader env title s = writeLines env ['''', divider, title, divider] s"

text \<open>
  \<open>commandLines\<close> (lines 374-388). \<open>parseLines\<close> is its second half: trim the output,
  split it at newlines, trim every piece and keep the ones that are not empty.
\<close>

definition parseLines :: "string \<Rightarrow> string list" where
  "parseLines cmdOutput = filter (\<lambda>l. l \<noteq> []) (map TrimSpace (Split (TrimSpace cmdOutput)))"

definition commandLines ::
  "env \<Rightarrow> string \<Rightarrow> string list \<Rightarrow> state \<Rightarrow> (string + string list) \<times> state" where
  "commandLines env name args s =
     (let r = runCmd env (name # args);
          s' = s\<lparr>executed := executed s @ [name # args]\<rparr>
      in case failure r of
           Some e \<Rightarrow> (Inl (name @ '': '' @ e @ '': '' @ TrimSpace (combined r)), s')
         | None \<Rightarrow> (Inr (parseLines (combined r)), s'))"

text \<open>\<open>listDirSorted\<close> (lines 390-401).\<close>

definition listDirSorted :: "env \<Rightarrow> string \<Rightarrow> string + string list" where
  "listDirSorted env path =
     (case readDir env path of Inl e \<Rightarrow> Inl e | Inr names \<Rightarrow> Inr (sort names))"

text \<open>
  \<open>appendCommandOutput\<close> (lines 403-422). The output of the command goes to the report
  and to the buffer through one \<open>io.MultiWriter\<close>, here in one write; when the write to
  the report fails the buffer gets nothing and \<open>cmd.Run\<close> reports that error, unless the
  command itself failed. The pair returned is \<open>(warn, err)\<close>.
\<close>

definition appendCommandOutput ::
  "env \<Rightarrow> bool \<Rightarrow> string \<Rightarrow> string list \<Rightarrow> state \<Rightarrow> (string \<times> error option) \<times> state" where
  "appendCommandOutput env allowWarn name args s =
     (let r = runCmd env (name # args);
          s1 = s\<lparr>executed := executed s @ [name # args]\<rparr>;
          ws = (if combined r = [] then (None, s1) else writeBytes env (combined r) s1);
          buf = (if fst ws = None then combined r else []);
          err = (case failure r of Some e \<Rightarrow> Some e | None \<Rightarrow> fst ws)
      in case err of
           None \<Rightarrow> (([], None), snd ws)
         | Some e \<Rightarrow>
             (let cmdStr = Join (name # args) '' '';
                  msg = TrimSpace buf;
                  warn = cmdStr @ '' failed: '' @ e;
                  warn' = (if msg \<noteq> [] then warn @ '': '' @ msg else warn)
              in if allowWarn then ((warn', None), snd ws)
                 else (([], wrapCommandErr cmdStr (Some e) msg), snd ws)))"

text \<open>
  \<open>writeBrewJSON\<close> (lines 424-440): the metadata file is created first, then the
  command runs with its standard output in the file and its standard error in a buffer.
\<close>

definition writeBrewJSON :: "env \<Rightarrow> string \<Rightarrow> state \<Rightarrow> error option \<times> state" where
  "writeBrewJSON env path s =
     (case createFile env path of
        Some e \<Rightarrow> (Some (OSError e), s)
      | None \<Rightarrow>
          (let argv = [''brew'', ''info'', ''--installed'', ''--json=v2''];
               r = runCmd env argv;
               s1 = s\<lparr>created := created s @ [path], executed := executed s @ [argv]\<rparr>
           in (wrapCommandErr ''brew info --installed --json=v2'' (failure r)
                 (TrimSpace (errOutput r)), s1)))"

text \<open>\<open>fileSize\<close> (lines 505-511).\<close>

definition fileSize :: "env \<Rightarrow> string \<Rightarrow> int" where
  "fileSize env path = (case statSize env path of None \<Rightarrow> 0 | Some n \<Rightarrow> n)"

section \<open>The Caskroom walk\<close>

text \<open>
  \<open>filepath.WalkDir\<close> calls its function on the root and, for a directory where the
  function returned no error, on every entry in turn. \<open>SkipDir\<close> from a directory skips
  its contents; from another entry it ends the loop over the directory that holds it.
  A directory that cannot be read gets a second call with the error. The path of an
  entry is the path of its directory, a separator and the entry's name (\<open>filepath.Join\<close>
  of a cleaned path and a plain name). \<open>visited\<close> lists the paths handed to the function.
\<close>

datatype walkResult = Continue | SkipDir | WalkFail string

record walkState =
  visited :: "string list"
  dirs :: "string list"

type_synonym walkFn = "string \<Rightarrow> bool \<Rightarrow> string option \<Rightarrow> walkState \<Rightarrow> walkResult \<times> walkState"

definition visit :: "string \<Rightarrow> walkState \<Rightarrow> walkState" where
  "visit path w = w\<lparr>visited := visited w @ [path]\<rparr>"

fun walkDir :: "walkFn \<Rightarrow> string \<Rightarrow> fsnode \<Rightarrow> walkState \<Rightarrow> walkResult \<times> walkState"
  and walkEntries :: "walkFn \<Rightarrow> string \<Rightarrow> fsnode list \<Rightarrow> walkState \<Rightarrow> walkResult \<times> walkState"
where
  "walkDir fn path (NonDir n) w = fn path False None (visit path w)"
| "walkDir fn path (Dir n es) w =
     (case fn path True None (visit path w) of
        (Continue, w1) \<Rightarrow> walkEntries fn path es w1
      | (SkipDir, w1) \<Rightarrow> (Continue, w1)
      | (WalkFail x, w1) \<Rightarrow> (WalkFail x, w1))"
| "walkDir fn path (Unreadable n e) w =
     (case fn path True None (visit path w) of
        (Continue, w1) \<Rightarrow>
          (case fn path True (Some e) (visit path w1) of
             (SkipDir, w2) \<Rightarrow> (Continue, w2)
           | (r, w2) \<Rightarrow> (r, w2))
      | (SkipDir, w1) \<Rightarrow> (Continue, w1)
      | (WalkFail x, w1) \<Rightarrow> (WalkFail x, w1))"
| "walkEntries fn path [] w = (Continue, w)"
| "walkEntries fn path (d1 # ds) w =
     (case walkDir fn (path @ ''/'' @ nodeName d1) d1 w of
        (Continue, w1) \<Rightarrow> walkEntries fn path ds w1
      | (SkipDir, w1) \<Rightarrow> (Continue, w1)
      | (WalkFail x, w1) \<Rightarrow> (WalkFail x, w1))"

definition WalkDir :: "env \<Rightarrow> walkFn \<Rightarrow> string \<Rightarrow> walkState \<Rightarrow> walkResult \<times> walkState" where
  "WalkDir env fn rootPath w =
     (case (case lstatTree env rootPath of
              Inl e \<Rightarrow> fn rootPath False (Some e) (visit rootPath w)
            | Inr node \<Rightarrow> walkDir fn rootPath node w) of
        (SkipDir, w') \<Rightarrow> (Continue, w')
      | (r, w') \<Rightarrow> (r, w'))"

text \<open>
  The function \<open>caskroomDirectories\<close> passes to the walk (lines 456-469), and the depth it
  computes: the separators in the path once the Caskroom root is cut off its front.
\<close>

definition relDepth :: "string \<Rightarrow> string \<Rightarrow> nat" where
  "relDepth caskroom path = count_list (TrimPrefix path caskroom) CHR ''/''"

definition collectDir :: "string \<Rightarrow> walkFn" where
  "collectDir caskroom path isDir walkErr w =
     (case walkErr of
        Some e \<Rightarrow> (WalkFail e, w)
      | None \<Rightarrow>
          if \<not> isDir then (Continue, w)
          else if relDepth caskroom path > 2 then (SkipDir, w)
          else (Continue, w\<lparr>dirs := dirs w @ [path]\<rparr>))"

text \<open>
  \<open>caskroomDirectories\<close> (lines 442-475), returning \<open>(dirs, err)\<close>. With no line in the
  output of \<open>brew --prefix\<close> and no error, \<open>wrapCommandErr\<close> is given no error and both
  results are nil.
\<close>

definition caskroomDirectories :: "env \<Rightarrow> state \<Rightarrow> (string list \<times> error option) \<times> state" where
  "caskroomDirectories env s =
     (case commandLines env ''brew'' [''--prefix''] s of
        (Inl e, s1) \<Rightarrow> (([], wrapCommandErr ''brew --prefix'' (Some e) []), s1)
      | (Inr [], s1) \<Rightarrow> (([], wrapCommandErr ''brew --prefix'' None []), s1)
      | (Inr (p # ps), s1) \<Rightarrow>
          (let caskroom = joinPath env p ''Caskroom'' in
           case statPath env caskroom of
             StatNotExist \<Rightarrow> (([], None), s1)
           | StatFail e \<Rightarrow> (([], Some (OSError e)), s1)
           | StatOk \<Rightarrow>
               (case WalkDir env (collectDir caskroom) caskroom \<lparr>visited = [], dirs = []\<rparr> of
                  (WalkFail e, w) \<Rightarrow>
                    (([], Some (OSError e)), s1\<lparr>walked := walked s1 @ visited w\<rparr>)
                | (r, w) \<Rightarrow>
                    ((sort (dirs w), None), s1\<lparr>walked := walked s1 @ visited w\<rparr>))))"

section \<open>runExport\<close>

text \<open>
  \<open>runExport\<close> (lines 159-353) is a sequence of steps, each of which returns at once with
  the result built so far when it fails. A step maps the state to the error it returns,
  if any, and the new state.
\<close>

type_synonym step = "state \<Rightarrow> error option \<times> state"

fun runSteps :: "step list \<Rightarrow> state \<Rightarrow> error option \<times> state" where
  "runSteps [] s = (None, s)"
| "runSteps (f # fs) s =
     (case f s of
        (Some e, s') \<Rightarrow> (Some e, s')
      | (None, s') \<Rightarrow> runSteps fs s')"

text \<open>An error of the operating system is returned as it is.\<close>

definition asIs :: "string option \<times> state \<Rightarrow> error option \<times> state" where
  "asIs r = (map_option OSError (fst r), snd r)"

text \<open>Lines 162-167.\<close>

definition requireCommand :: "env \<Rightarrow> string \<Rightarrow> string \<Rightarrow> step" where
  "requireCommand env name hint s = (ensureCommand env name hint, s)"

text \<open>Lines 169-176.\<close>

definition resolveReportPath :: "env \<Rightarrow> exportOptions \<Rightarrow> step" where
  "resolveReportPath env opts s =
     (case absPath env (reportPath opts) of
        Inl e \<Rightarrow> (Some (OSError e), s)
      | Inr p \<Rightarrow> (None, s\<lparr>absReport := p\<rparr>))"

definition resolveJSONPath :: "env \<Rightarrow> exportOptions \<Rightarrow> step" where
  "resolveJSONPath env opts s =
     (case absPath env (jsonPath opts) of
        Inl e \<Rightarrow> (Some (OSError e), s)
      | Inr p \<Rightarrow> (None, s\<lparr>absJSON := p\<rparr>))"

text \<open>Lines 178-183.\<close>

definition makeParentDir :: "env \<Rightarrow> (state \<Rightarrow> string) \<Rightarrow> step" where
  "makeParentDir env file s =
     (let d = dirOf env (file s) in
      case mkdirAll env d of
        Some e \<Rightarrow> (Some (OSError e), s)
      | None \<Rightarrow> (None, s\<lparr>madeDirs := madeDirs s @ [d]\<rparr>))"

text \<open>Lines 185-192: the report file is created (and emptied), the writer is on it.\<close>

definition createReport :: "env \<Rightarrow> step" where
  "createReport env s =
     (case createFile env (absReport s) of
        Some e \<Rightarrow> (Some (OSError e), s)
      | None \<Rightarrow> (None, s\<lparr>created := created s @ [absReport s], report := []\<rparr>))"

text \<open>Lines 194-200.\<close>

definition noStats :: exportStats where
  "noStats = \<lparr>AppBundleCount = 0, ApplicationsDirCount = 0, UserApplicationsCount = 0,
               BrewCaskCount = 0, BrewFormulaCount = 0\<rparr>"

definition beginResult :: "env \<Rightarrow> exportOptions \<Rightarrow> step" where
  "beginResult env opts s =
     (let r1 = (result s)\<lparr>ReportPath := absReport s\<rparr>;
          r2 = (if \<not> compactMode opts then r1\<lparr>BrewJSONPath := absJSON s\<rparr> else r1);
          r3 = r2\<lparr>StartedAt := timeStart env\<rparr>
      in (None, s\<lparr>result := r3, stats := noStats\<rparr>))"

text \<open>One \<open>fmt.Fprintln\<close> or \<open>fmt.Fprintf\<close> of a whole line, and one section header.\<close>

definition printLine :: "env \<Rightarrow> (state \<Rightarrow> string) \<Rightarrow> step" where
  "printLine env line s = asIs (Fprintln env (line s) s)"

definition sectionHeader :: "env \<Rightarrow> string \<Rightarrow> step" where
  "sectionHeader env title s = asIs (writeSectionHeader env title s)"

text \<open>Lines 206-214.\<close>

definition mdfindQuery :: string where
  "mdfindQuery = ''kMDItemContentType == '' @ [CHR 0x27] @ ''com.apple.application-bundle'' @ [CHR 0x27]"

definition collectAppBundles :: "env \<Rightarrow> step" where
  "collectAppBundles env s =
     (case commandLines env ''mdfind'' [mdfindQuery] s of
        (Inl e, s1) \<Rightarrow> (wrapCommandErr ''mdfind'' (Some e) [], s1)
      | (Inr lines, s1) \<Rightarrow>
          (let appBundles = sort lines;
               s2 = s1\<lparr>stats := (stats s1)\<lparr>AppBundleCount := int (length appBundles)\<rparr>\<rparr>
           in asIs (writeLines env appBundles s2)))"

text \<open>Lines 222-229.\<close>

definition collectSystemApps :: "env \<Rightarrow> step" where
  "collectSystemApps env s =
     (case listDirSorted env ''/Applications'' of
        Inl e \<Rightarrow> (wrapCommandErr ''ls /Applications'' (Some e) [], s)
      | Inr systemApps \<Rightarrow>
          (let s1 = s\<lparr>stats := (stats s)\<lparr>ApplicationsDirCount := int (length systemApps)\<rparr>\<rparr>
           in asIs (writeLines env systemApps s1)))"

text \<open>Lines 237-244: a directory that cannot be read is passed over.\<close>

definition collectUserApps :: "env \<Rightarrow> step" where
  "collectUserApps env s =
     (case listDirSorted env (joinPath env (userHomeDir env) ''Applications'') of
        Inl e \<Rightarrow> (None, s)
      | Inr userApps \<Rightarrow>
          (let s1 = s\<lparr>stats := (stats s)\<lparr>UserApplicationsCount := int (length userApps)\<rparr>\<rparr>
           in asIs (writeLines env userApps s1)))"

text \<open>Lines 249-257.\<close>

definition collectCasks :: "env \<Rightarrow> step" where
  "collectCasks env s =
     (case commandLines env ''brew'' [''list'', ''--cask'', ''--versions''] s of
        (Inl e, s1) \<Rightarrow>
          (wrapCommandErr ''brew list --cask --versions'' (Some e)
             ''Confirm Homebrew is installed and casks are set up.'', s1)
      | (Inr lines, s1) \<Rightarrow>
          (let casks = sort lines;
               s2 = s1\<lparr>stats := (stats s1)\<lparr>BrewCaskCount := int (length casks)\<rparr>\<rparr>
           in asIs (writeLines env casks s2)))"

text \<open>Lines 266-272.\<close>

definition collectCaskroom :: "env \<Rightarrow> step" where
  "collectCaskroom env s =
     (case caskroomDirectories env s of
        ((caskroomDirs, Some e), s1) \<Rightarrow> (Some e, s1)
      | ((caskroomDirs, None), s1) \<Rightarrow> asIs (writeLines env caskroomDirs s1))"

text \<open>Lines 278-286.\<close>

definition collectFormulae :: "env \<Rightarrow> step" where
  "collectFormulae env s =
     (case commandLines env ''brew'' [''list'', ''--formula'', ''--versions''] s of
        (Inl e, s1) \<Rightarrow>
          (wrapCommandErr ''brew list --formula --versions'' (Some e)
             ''Confirm Homebrew is installed and formulae are set up.'', s1)
      | (Inr lines, s1) \<Rightarrow>
          (let formulae = sort lines;
               s2 = s1\<lparr>stats := (stats s1)\<lparr>BrewFormulaCount := int (length formulae)\<rparr>\<rparr>
           in asIs (writeLines env formulae s2)))"

text \<open>Lines 292-301: the two diagnostic commands, \<open>brew config\<close> and \<open>brew doctor\<close>.\<close>

definition diagnostic :: "env \<Rightarrow> bool \<Rightarrow> string \<Rightarrow> string list \<Rightarrow> step" where
  "diagnostic env allowWarn name args s =
     (case appendCommandOutput env allowWarn name args s of
        ((warn, Some e), s1) \<Rightarrow> (Some e, s1)
      | ((warn, None), s1) \<Rightarrow>
          (None, if warn \<noteq> [] then
                   s1\<lparr>result := (result s1)\<lparr>Warnings := Warnings (result s1) @ [warn]\<rparr>\<rparr>
                 else s1))"

text \<open>Lines 306-308.\<close>

definition saveBrewJSON :: "env \<Rightarrow> step" where
  "saveBrewJSON env s = writeBrewJSON env (absJSON s) s"

text \<open>Lines 339-341.\<close>

definition flushReport :: "env \<Rightarrow> step" where
  "flushReport env s = (map_option OSError (flushErr env), s)"

text \<open>Lines 343-350.\<close>

definition finalizeResult :: "env \<Rightarrow> exportOptions \<Rightarrow> step" where
  "finalizeResult env opts s =
     (let r1 = (result s)\<lparr>ReportSizeBytes := fileSize env (absReport s)\<rparr>;
          r2 = (if \<not> compactMode opts then r1\<lparr>BrewJSONSizeBytes := fileSize env (absJSON s)\<rparr> else r1);
          r3 = r2\<lparr>Stats := stats s\<rparr>;
          r4 = r3\<lparr>CompletedAt := timeEnd env\<rparr>;
          r5 = r4\<lparr>DurationSeconds := real_of_int (CompletedAt r4 - StartedAt r4) / 1000000000\<rparr>;
          r6 = r5\<lparr>Compact := compactMode opts\<rparr>
      in (None, s\<lparr>result := r6\<rparr>))"

text \<open>The zero value of \<open>exportResult\<close> (line 160) and the state \<open>runExport\<close> starts in.\<close>

definition zeroResult :: exportResult where
  "zeroResult = \<lparr>ReportPath = [], ReportSizeBytes = 0, BrewJSONPath = [], BrewJSONSizeBytes = 0,
                  Compact = False, Stats = noStats, DurationSeconds = 0, StartedAt = 0,
                  CompletedAt = 0, Warnings = []\<rparr>"

definition initial :: state where
  "initial = \<lparr>result = zeroResult, stats = noStats, absReport = [], absJSON = [], report = [],
               created = [], madeDirs = [], executed = [], walked = []\<rparr>"

text \<open>The four stretches of \<open>runExport\<close>: lines 162-200, 202-286, 288-312 and 314-352.\<close>

definition setupSteps :: "env \<Rightarrow> exportOptions \<Rightarrow> step list" where
  "setupSteps env opts =
     [requireCommand env ''mdfind''
        (''Spotlight CLI missing. Ensure you'' @ [CHR 0x27] @ ''re on macOS with Spotlight enabled.''),
      requireCommand env ''brew''
        ''Install Homebrew from https://brew.sh/ to capture casks and formulae.'',
      resolveReportPath env opts,
      resolveJSONPath env opts,
      makeParentDir env absReport,
      makeParentDir env absJSON,
      createReport env,
      beginResult env opts]"

definition inventorySteps :: "env \<Rightarrow> exportOptions \<Rightarrow> step list" where
  "inventorySteps env opts =
     [sectionHeader env ''MAC SYSTEM + USER INSTALLED APPLICATIONS (.app bundles)'',
      collectAppBundles env,
      printLine env (\<lambda>s. []),
      printLine env (\<lambda>s. ''-- /Applications ---''),
      collectSystemApps env,
      printLine env (\<lambda>s. []),
      printLine env (\<lambda>s. ''-- ~/Applications ---''),
      collectUserApps env,
      sectionHeader env ''HOMEBREW CASK APPLICATIONS (GUI)'',
      collectCasks env]
     @ (if \<not> compactMode opts then
          [printLine env (\<lambda>s. []),
           printLine env (\<lambda>s. ''-- Installed paths --''),
           collectCaskroom env]
        else [])
     @ [sectionHeader env ''HOMEBREW FORMULAE (CLI tools)'',
        collectFormulae env]"

definition diagnosticSteps :: "env \<Rightarrow> exportOptions \<Rightarrow> step list" where
  "diagnosticSteps env opts =
     (if \<not> compactMode opts then
        [sectionHeader env ''BREW ENV & METADATA'',
         diagnostic env False ''brew'' [''config''],
         diagnostic env True ''brew'' [''doctor''],
         sectionHeader env ''FULL BREW PACKAGE METADATA (JSON)'',
         saveBrewJSON env,
         printLine env (\<lambda>s. ''Saved JSON -> '' @ absJSON s)]
      else [])"

definition closingSteps :: "env \<Rightarrow> exportOptions \<Rightarrow> step list" where
  "closingSteps env opts =
     [printLine env (\<lambda>s. []),
      printLine env (\<lambda>s. divider),
      printLine env (\<lambda>s. ''Report complete!''),
      printLine env (\<lambda>s. ''Text report: '' @ absReport s),
      (if \<not> compactMode opts then printLine env (\<lambda>s. ''JSON metadata: '' @ absJSON s)
       else printLine env (\<lambda>s. ''JSON metadata: skipped (compact mode)'')),
      printLine env (\<lambda>s. divider),
      flushReport env,
      finalizeResult env opts]"

text \<open>
  \<open>runExport\<close> returns the pair of \<open>result\<close> in the final state and the error; the final
  state also tells what the run did.
\<close>

definition runExport :: "env \<Rightarrow> exportOptions \<Rightarrow> error option \<times> state" where
  "runExport env opts =
     runSteps (setupSteps env opts @ inventorySteps env opts @ diagnosticSteps env opts
               @ closingSteps env opts) initial"

section \<open>The text of a report\<close>

text \<open>
  The bytes \<open>writeLines\<close> writes for a sequence of lines when no write fails: every line
  followed by a newline. \<open>headerText\<close> is what \<open>writeSectionHeader\<close> writes, and
  \<open>closingText\<close> the closing banner of lines 314-337.
\<close>

definition linesText :: "string list \<Rightarrow> string" where
  "linesText ls = concat (map (\<lambda>l. l @ [CHR 0x0A]) ls)"

definition headerText :: "string \<Rightarrow> string" where
  "headerText title = linesText ['''', divider, title, divider]"

definition closingText :: "exportOptions \<Rightarrow> string \<Rightarrow> string \<Rightarrow> string" where
  "closingText opts r j =
     linesText ['''', divider, ''Report complete!'', ''Text report: '' @ r,
                (if \<not> compactMode opts then ''JSON metadata: '' @ j
                 else ''JSON metadata: skipped (compact mode)''),
                divider]"

text \<open>The commands of the inventory, and the sorted lines \<open>runExport\<close> makes of a command's output.\<close>

abbreviation mdfindCmd :: "string list" where
  "mdfindCmd \<equiv> [''mdfind'', mdfindQuery]"

abbreviation casksCmd :: "string list" where
  "casksCmd \<equiv> [''brew'', ''list'', ''--cask'', ''--versions'']"

abbreviation formulaeCmd :: "string list" where
  "formulaeCmd \<equiv> [''brew'', ''list'', ''--formula'', ''--versions'']"

abbreviation prefixCmd :: "string list" where
  "prefixCmd \<equiv> [''brew'', ''--prefix'']"

abbreviation sortedLines :: "env \<Rightarrow> string list \<Rightarrow> string list" where
  "sortedLines env argv \<equiv> sort (parseLines (combined (runCmd env argv)))"

abbreviation userAppsDir :: "env \<Rightarrow> string" where
  "userAppsDir env \<equiv> joinPath env (userHomeDir env) ''Applications''"

text \<open>
  The lines of the \<open>~/Applications\<close> listing (lines 237-244): the sorted names, and none
  when the directory cannot be read.
\<close>

definition userApps :: "env \<Rightarrow> string list" where
  "userApps env = (case readDir env (userAppsDir env) of Inl e \<Rightarrow> [] | Inr names \<Rightarrow> sort names)"

text \<open>An environment in which no directory creation, file creation, write or flush fails.\<close>

definition calm :: "env \<Rightarrow> bool" where
  "calm env \<longleftrightarrow>
     (\<forall>d. mkdirAll env d = None) \<and> (\<forall>p. createFile env p = None) \<and>
     (\<forall>n. writeErr env n = None) \<and> flushErr env = None"

text \<open>The commands of the diagnostic stretch.\<close>

abbreviation configCmd :: "string list" where
  "configCmd \<equiv> [''brew'', ''config'']"

abbreviation doctorCmd :: "string list" where
  "doctorCmd \<equiv> [''brew'', ''doctor'']"

abbreviation infoCmd :: "string list" where
  "infoCmd \<equiv> [''brew'', ''info'', ''--installed'', ''--json=v2'']"

text \<open>
  A step is quiet when it leaves \<open>result\<close> and the two paths alone, only adds to the
  report and to the files created, and executes commands of the given set only.
\<close>

definition quiet :: "string list set \<Rightarrow> state \<Rightarrow> state \<Rightarrow> bool" where
  "quiet cmds t t' \<longleftrightarrow>
     result t' = result t \<and> absReport t' = absReport t \<and> absJSON t' = absJSON t \<and>
     prefix (created t) (created t') \<and> prefix (report t) (report t') \<and>
     (\<exists>ex. executed t' = executed t @ ex \<and> set ex \<subseteq> cmds)"

text \<open>
  A tree as a file system holds it: no name of an entry contains the separator.
  \<open>dirPaths\<close> lists the paths of the directories of a tree.
\<close>

fun plainNames :: "fsnode \<Rightarrow> bool" where
  "plainNames (NonDir n) \<longleftrightarrow> CHR ''/'' \<notin> set n"
| "plainNames (Dir n es) \<longleftrightarrow> CHR ''/'' \<notin> set n \<and> list_all plainNames es"
| "plainNames (Unreadable n e) \<longleftrightarrow> CHR ''/'' \<notin> set n"

fun dirPaths :: "string \<Rightarrow> fsnode \<Rightarrow> string list" where
  "dirPaths path (NonDir n) = []"
| "dirPaths path (Dir n es) = path # concat (map (\<lambda>d. dirPaths (path @ ''/'' @ nodeName d) d) es)"
| "dirPaths path (Unreadable n e) = [path]"

text \<open>
  What holds of the state of the walk at every moment: every path visited is at most
  three separators below the root, and every path collected is at most two below it,
  was visited, and is one of the given directories.
\<close>

definition walkInv :: "string \<Rightarrow> string list \<Rightarrow> walkState \<Rightarrow> bool" where
  "walkInv c ok w \<longleftrightarrow>
     (\<forall>p \<in> set (visited w). relDepth c p \<le> 3) \<and>
     (\<forall>p \<in> set (dirs w). relDepth c p \<le> 2 \<and> p \<in> set (visited w) \<and> p \<in> set ok)"

text \<open>
  The lines of the \<open>/Applications\<close> listing (lines 222-229), and none when the directory
  cannot be read; the Caskroom directories \<open>caskroomDirectories\<close> returns, which do not
  depend on the state of the run.
\<close>

definition systemApps :: "env \<Rightarrow> string list" where
  "systemApps env = (case readDir env ''/Applications'' of Inl e \<Rightarrow> [] | Inr names \<Rightarrow> sort names)"

definition caskroomPaths :: "env \<Rightarrow> string list" where
  "caskroomPaths env = fst (fst (caskroomDirectories env initial))"

text \<open>
  The bytes lines 202-286 write when nothing fails, and the bytes lines 288-312 write
  outside compact mode, given what \<open>brew doctor\<close> left in the report and the path of the
  metadata file.
\<close>

definition inventoryText :: "env \<Rightarrow> exportOptions \<Rightarrow> string" where
  "inventoryText env opts =
       headerText ''MAC SYSTEM + USER INSTALLED APPLICATIONS (.app bundles)''
     @ linesText (sortedLines env mdfindCmd)
     @ ''\<newline>-- /Applications ---\<newline>''
     @ linesText (systemApps env)
     @ ''\<newline>-- ~/Applications ---\<newline>''
     @ linesText (userApps env)
     @ headerText ''HOMEBREW CASK APPLICATIONS (GUI)''
     @ linesText (sortedLines env casksCmd)
     @ (if compactMode opts then []
        else ''\<newline>-- Installed paths --\<newline>'' @ linesText (caskroomPaths env))
     @ headerText ''HOMEBREW FORMULAE (CLI tools)''
     @ linesText (sortedLines env formulaeCmd)"

definition diagnosticText :: "env \<Rightarrow> string \<Rightarrow> string \<Rightarrow> string" where
  "diagnosticText env doctorOut j =
       headerText ''BREW ENV & METADATA''
     @ combined (runCmd env configCmd)
     @ doctorOut
     @ headerText ''FULL BREW PACKAGE METADATA (JSON)''
     @ linesText [''Saved JSON -> '' @ j]"

text \<open>
  A step emits a text when it only adds to the report, adds a prefix of the text
  whatever its outcome, and adds the whole text when it returns no error.
\<close>

definition emits :: "step \<Rightarrow> string \<Rightarrow> bool" where
  "emits f txt \<longleftrightarrow>
     (\<forall>t e t'. f t = (e, t') \<longrightarrow>
        (\<exists>x. report t' = report t @ x \<and> prefix x txt \<and> (e = None \<longrightarrow> x = txt)))"


section \<open>Sample environments\<close>

text \<open>
  A Mac with two application bundles, two casks, one formula, a Caskroom four
  directories deep and a \<open>brew doctor\<close> that exits with status 1.
\<close>

definition sampleRun :: "string list \<Rightarrow> procResult" where
  "sampleRun argv =
     (if argv = [''mdfind'', mdfindQuery] then
        \<lparr>combined = ''/Applications/Foo.app\<newline>/Applications/Bar.app\<newline>'', errOutput = [], failure = None\<rparr>
      else if argv = [''brew'', ''list'', ''--cask'', ''--versions''] then
        \<lparr>combined = ''wget 1.21\<newline>curl 8.0\<newline>\<newline>'', errOutput = [], failure = None\<rparr>
      else if argv = [''brew'', ''list'', ''--formula'', ''--versions''] then
        \<lparr>combined = ''git 2.40\<newline>'', errOutput = [], failure = None\<rparr>
      else if argv = [''brew'', ''--prefix''] then
        \<lparr>combined = ''/opt/homebrew\<newline>'', errOutput = [], failure = None\<rparr>
      else if argv = [''brew'', ''config''] then
        \<lparr>combined = ''HOMEBREW_VERSION: 4.0\<newline>'', errOutput = [], failure = None\<rparr>
      else if argv = [''brew'', ''doctor''] then
        \<lparr>combined = ''Warning: outdated\<newline>'', errOutput = ''Warning: outdated\<newline>'',
         failure = Some ''exit status 1''\<rparr>
      else \<lparr>combined = [], errOutput = [], failure = None\<rparr>)"

definition sampleTree :: fsnode where
  "sampleTree =
     Dir ''Caskroom''
       [NonDir ''.metadata'',
        Dir ''firefox'' [Dir ''120.0'' [Dir ''Firefox.app'' [Dir ''Contents'' []]]]]"

definition sampleEnv :: env where
  "sampleEnv =
     \<lparr>lookPath = (\<lambda>n. True),
      absPath = (\<lambda>p. Inr (''/Users/me/'' @ p)),
      dirOf = (\<lambda>p. ''/Users/me''),
      joinPath = (\<lambda>a b. a @ ''/'' @ b),
      mkdirAll = (\<lambda>d. None),
      createFile = (\<lambda>p. None),
      writeErr = (\<lambda>n. None),
      flushErr = None,
      runCmd = sampleRun,
      readDir = (\<lambda>p. if p = ''/Applications'' then Inr [''Safari.app'', ''Mail.app'']
                      else Inl ''no such file or directory''),
      userHomeDir = ''/Users/me'',
      statPath = (\<lambda>p. StatOk),
      lstatTree = (\<lambda>p. Inr sampleTree),
      statSize = (\<lambda>p. Some 100),
      timeStart = 0,
      timeEnd = 1\<rparr>"

definition fullRun :: exportOptions where
  "fullRun = \<lparr>reportPath = ''apps.txt'', jsonPath = ''brew.json'', compactMode = False\<rparr>"

definition compactRun :: exportOptions where
  "compactRun = \<lparr>reportPath = ''apps.txt'', jsonPath = ''brew.json'', compactMode = True\<rparr>"

text \<open>
  The sample Mac with an application whose name holds a newline; with a \<open>brew config\<close>
  that prints two lines in descending order; with a \<open>brew config\<close> that exits with
  status 1; and with an \<open>mdfind\<close> that exits with status 1.
\<close>

definition oddNamesEnv :: env where
  "oddNamesEnv =
     sampleEnv\<lparr>readDir := (\<lambda>p. if p = ''/Applications'' then Inr [''Safari.app'', ''My\<newline>App.app'']
                                else Inl ''no such file or directory'')\<rparr>"




section \<open>Running a sequence of steps\<close>

lemma runSteps_append:
  "runSteps (fs @ gs) s =
     (case runSteps fs s of (Some e, s') \<Rightarrow> (Some e, s') | (None, s') \<Rightarrow> runSteps gs s')"
  by (induction fs arbitrary: s) (auto split: prod.splits option.splits)

lemma runSteps_ConsE:
  assumes "runSteps (f # fs) s = (None, s')"
  obtains s1 where "f s = (None, s1)" "runSteps fs s1 = (None, s')"
  using assms by (auto split: prod.splits option.splits)

lemma runSteps_appendE:
  assumes "runSteps (fs @ gs) s = (None, s')"
  obtains s1 where "runSteps fs s = (None, s1)" "runSteps gs s1 = (None, s')"
  using assms by (auto simp: runSteps_append split: prod.splits option.splits)

lemma runSteps_invariant:
  assumes "\<And>f s e s'. f \<in> set fs \<Longrightarrow> P s \<Longrightarrow> f s = (e, s') \<Longrightarrow> P s'"
    and "P s" and "runSteps fs s = (e, s')"
  shows "P s'"
  using assms
proof (induction fs arbitrary: s)
  case Nil
  then show ?case by simp
next
  case (Cons f fs)
  obtain e1 s1 where f: "f s = (e1, s1)" by (cases "f s")
  have P1: "P s1" using Cons.prems(1)[of f s e1 s1] Cons.prems(2) f by simp
  show ?case
  proof (cases e1)
    case None
    with f Cons.prems(3) have "runSteps fs s1 = (e, s')" by simp
    then show ?thesis using Cons.IH[of s1] Cons.prems(1) P1 by auto
  next
    case (Some a)
    with f Cons.prems(3) have "s' = s1" by simp
    with P1 show ?thesis by simp
  qed
qed

lemma writeBytes_None:
  "writeBytes env b s = (None, s') \<Longrightarrow> s' = s\<lparr>report := report s @ b\<rparr>"
  by (auto simp: writeBytes_def split: option.splits)

lemma writeBytes_shape:
  "writeBytes env b s = (e, s') \<Longrightarrow> \<exists>x. s' = s\<lparr>report := report s @ x\<rparr>"
  by (auto simp: writeBytes_def split: option.splits intro: exI[of _ "[]"])

lemma writeLines_None:
  "writeLines env ls s = (None, s') \<Longrightarrow> s' = s\<lparr>report := report s @ linesText ls\<rparr>"
proof (induction ls arbitrary: s)
  case Nil
  then show ?case by (simp add: linesText_def)
next
  case (Cons l ls)
  from Cons.prems obtain s1 where a: "Fprintln env l s = (None, s1)" and b: "writeLines env ls s1 = (None, s')"
    by (auto split: prod.splits option.splits)
  from a have "s1 = s\<lparr>report := report s @ l @ [CHR 0x0A]\<rparr>"
    by (simp add: Fprintln_def writeBytes_None)
  with Cons.IH[OF b] show ?case by (simp add: linesText_def)
qed

lemma writeLines_shape:
  "writeLines env ls s = (e, s') \<Longrightarrow> \<exists>x. s' = s\<lparr>report := report s @ x\<rparr>"
proof (induction ls arbitrary: s)
  case Nil
  then show ?case by (auto intro: exI[of _ "[]"])
next
  case (Cons l ls)
  obtain e1 s1 where a: "Fprintln env l s = (e1, s1)" by (cases "Fprintln env l s")
  then obtain x where x: "s1 = s\<lparr>report := report s @ x\<rparr>"
    unfolding Fprintln_def using writeBytes_shape by blast
  show ?case
  proof (cases e1)
    case None
    with a Cons.prems have "writeLines env ls s1 = (e, s')" by simp
    from Cons.IH[OF this] obtain y where "s' = s1\<lparr>report := report s1 @ y\<rparr>" by blast
    with x have "s' = s\<lparr>report := report s @ (x @ y)\<rparr>" by simp
    then show ?thesis by blast
  next
    case (Some a')
    with a Cons.prems have "s' = s1" by simp
    with x show ?thesis by blast
  qed
qed

lemma asIs_None: "asIs r = (None, s') \<longleftrightarrow> r = (None, s')"
  by (cases r) (auto simp: asIs_def)

lemma printLine_None:
  "printLine env l s = (None, s') \<Longrightarrow> s' = s\<lparr>report := report s @ l s @ [CHR 0x0A]\<rparr>"
  by (simp add: printLine_def asIs_None Fprintln_def writeBytes_None)

lemma sectionHeader_None:
  "sectionHeader env t s = (None, s') \<Longrightarrow> s' = s\<lparr>report := report s @ headerText t\<rparr>"
  by (simp add: sectionHeader_def asIs_None writeSectionHeader_def headerText_def writeLines_None)

lemma printLine_shape:
  assumes "printLine env l s = (e, s')"
  shows "\<exists>x. s' = s\<lparr>report := report s @ x\<rparr>"
proof -
  obtain e1 s1 where a: "Fprintln env (l s) s = (e1, s1)" by (cases "Fprintln env (l s) s")
  with assms have "s' = s1" by (simp add: printLine_def asIs_def)
  with a show ?thesis unfolding Fprintln_def using writeBytes_shape by blast
qed

lemma sectionHeader_shape:
  assumes "sectionHeader env t s = (e, s')"
  shows "\<exists>x. s' = s\<lparr>report := report s @ x\<rparr>"
proof -
  obtain e1 s1 where a: "writeSectionHeader env t s = (e1, s1)" by (cases "writeSectionHeader env t s")
  with assms have "s' = s1" by (simp add: sectionHeader_def asIs_def)
  with a show ?thesis unfolding writeSectionHeader_def using writeLines_shape by blast
qed


lemma commandLines_Inr:
  "commandLines env name args s = (Inr ls, s') \<Longrightarrow>
     failure (runCmd env (name # args)) = None \<and> ls = parseLines (combined (runCmd env (name # args))) \<and>
     s' = s\<lparr>executed := executed s @ [name # args]\<rparr>"
  by (auto simp: commandLines_def Let_def split: option.splits)

lemma commandLines_state:
  "commandLines env name args s = (r, s') \<Longrightarrow> s' = s\<lparr>executed := executed s @ [name # args]\<rparr>"
  by (auto simp: commandLines_def Let_def split: option.splits)

lemma wrapCommandErr_Some [simp]: "wrapCommandErr c (Some e) h \<noteq> None"
  by (simp add: wrapCommandErr_def)

lemma collectAppBundles_None:
  assumes "collectAppBundles env s = (None, s')"
  shows "failure (runCmd env mdfindCmd) = None \<and>
         s' = s\<lparr>executed := executed s @ [mdfindCmd],
                stats := (stats s)\<lparr>AppBundleCount := int (length (sortedLines env mdfindCmd))\<rparr>,
                report := report s @ linesText (sortedLines env mdfindCmd)\<rparr>"
proof -
  obtain r s1 where c: "commandLines env ''mdfind'' [mdfindQuery] s = (r, s1)"
    by (cases "commandLines env ''mdfind'' [mdfindQuery] s")
  with assms obtain ls where r: "r = Inr ls"
    by (cases r) (auto simp: collectAppBundles_def)
  from c r have f: "failure (runCmd env mdfindCmd) = None"
    and ls: "ls = parseLines (combined (runCmd env mdfindCmd))"
    and s1: "s1 = s\<lparr>executed := executed s @ [mdfindCmd]\<rparr>"
    using commandLines_Inr by blast+
  from assms c r have "writeLines env (sort ls)
      (s1\<lparr>stats := (stats s1)\<lparr>AppBundleCount := int (length (sort ls))\<rparr>\<rparr>) = (None, s')"
    by (simp add: collectAppBundles_def Let_def asIs_None)
  from writeLines_None[OF this] f ls s1 show ?thesis by simp
qed

lemma collectCasks_None:
  assumes "collectCasks env s = (None, s')"
  shows "failure (runCmd env casksCmd) = None \<and>
         s' = s\<lparr>executed := executed s @ [casksCmd],
                stats := (stats s)\<lparr>BrewCaskCount := int (length (sortedLines env casksCmd))\<rparr>,
                report := report s @ linesText (sortedLines env casksCmd)\<rparr>"
proof -
  obtain r s1 where c: "commandLines env ''brew'' [''list'', ''--cask'', ''--versions''] s = (r, s1)"
    by (cases "commandLines env ''brew'' [''list'', ''--cask'', ''--versions''] s")
  with assms obtain ls where r: "r = Inr ls"
    by (cases r) (auto simp: collectCasks_def)
  from c r have f: "failure (runCmd env casksCmd) = None"
    and ls: "ls = parseLines (combined (runCmd env casksCmd))"
    and s1: "s1 = s\<lparr>executed := executed s @ [casksCmd]\<rparr>"
    using commandLines_Inr by blast+
  from assms c r have "writeLines env (sort ls)
      (s1\<lparr>stats := (stats s1)\<lparr>BrewCaskCount := int (length (sort ls))\<rparr>\<rparr>) = (None, s')"
    by (simp add: collectCasks_def Let_def asIs_None)
  from writeLines_None[OF this] f ls s1 show ?thesis by simp
qed

lemma collectFormulae_None:
  assumes "collectFormulae env s = (None, s')"
  shows "failure (runCmd env formulaeCmd) = None \<and>
         s' = s\<lparr>executed := executed s @ [formulaeCmd],
                stats := (stats s)\<lparr>BrewFormulaCount := int (length (sortedLines env formulaeCmd))\<rparr>,
                report := report s @ linesText (sortedLines env formulaeCmd)\<rparr>"
proof -
  obtain r s1 where c: "commandLines env ''brew'' [''list'', ''--formula'', ''--versions''] s = (r, s1)"
    by (cases "commandLines env ''brew'' [''list'', ''--formula'', ''--versions''] s")
  with assms obtain ls where r: "r = Inr ls"
    by (cases r) (auto simp: collectFormulae_def)
  from c r have f: "failure (runCmd env formulaeCmd) = None"
    and ls: "ls = parseLines (combined (runCmd env formulaeCmd))"
    and s1: "s1 = s\<lparr>executed := executed s @ [formulaeCmd]\<rparr>"
    using commandLines_Inr by blast+
  from assms c r have "writeLines env (sort ls)
      (s1\<lparr>stats := (stats s1)\<lparr>BrewFormulaCount := int (length (sort ls))\<rparr>\<rparr>) = (None, s')"
    by (simp add: collectFormulae_def Let_def asIs_None)
  from writeLines_None[OF this] f ls s1 show ?thesis by simp
qed

lemma collectSystemApps_None:
  assumes "collectSystemApps env s = (None, s')"
  shows "\<exists>names. readDir env ''/Applications'' = Inr names \<and>
         s' = s\<lparr>stats := (stats s)\<lparr>ApplicationsDirCount := int (length (sort names))\<rparr>,
                report := report s @ linesText (sort names)\<rparr>"
proof -
  from assms obtain names where n: "readDir env ''/Applications'' = Inr names"
    by (cases "readDir env ''/Applications''") (auto simp: collectSystemApps_def listDirSorted_def)
  with assms have "writeLines env (sort names)
      (s\<lparr>stats := (stats s)\<lparr>ApplicationsDirCount := int (length (sort names))\<rparr>\<rparr>) = (None, s')"
    by (simp add: collectSystemApps_def listDirSorted_def Let_def asIs_None)
  from writeLines_None[OF this] n show ?thesis by simp
qed

lemma collectUserApps_None:
  assumes "collectUserApps env s = (None, s')"
  shows "s' = s\<lparr>stats := (stats s)\<lparr>UserApplicationsCount :=
                   (case readDir env (userAppsDir env) of
                      Inl e \<Rightarrow> UserApplicationsCount (stats s)
                    | Inr names \<Rightarrow> int (length (sort names)))\<rparr>,
                report := report s @ linesText (userApps env)\<rparr>"
proof (cases "readDir env (userAppsDir env)")
  case (Inl e)
  with assms show ?thesis
    by (simp add: collectUserApps_def listDirSorted_def userApps_def linesText_def)
next
  case (Inr names)
  with assms have "writeLines env (sort names)
      (s\<lparr>stats := (stats s)\<lparr>UserApplicationsCount := int (length (sort names))\<rparr>\<rparr>) = (None, s')"
    by (simp add: collectUserApps_def listDirSorted_def Let_def asIs_None)
  from writeLines_None[OF this] Inr show ?thesis by (simp add: userApps_def)
qed

section \<open>What each helper changes in the state\<close>

lemma caskroomDirectories_state:
  assumes "caskroomDirectories env s = (r, s')"
  shows "\<exists>w. s' = s\<lparr>executed := executed s @ [prefixCmd], walked := walked s @ w\<rparr>"
proof -
  obtain x s1 where c: "commandLines env ''brew'' [''--prefix''] s = (x, s1)"
    by (cases "commandLines env ''brew'' [''--prefix''] s")
  then have s1: "s1 = s\<lparr>executed := executed s @ [prefixCmd]\<rparr>"
    by (rule commandLines_state)
  have "s' = s1 \<or> (\<exists>w. s' = s1\<lparr>walked := walked s1 @ w\<rparr>)"
    using assms c
    by (auto simp: caskroomDirectories_def Let_def
             split: sum.splits list.splits statResult.splits prod.splits walkResult.splits)
  then show ?thesis
  proof
    assume "s' = s1"
    with s1 have "s' = s\<lparr>executed := executed s @ [prefixCmd], walked := walked s @ []\<rparr>" by simp
    then show ?thesis by blast
  next
    assume "\<exists>w. s' = s1\<lparr>walked := walked s1 @ w\<rparr>"
    with s1 show ?thesis by auto
  qed
qed

lemma appendCommandOutput_state:
  assumes "appendCommandOutput env allowWarn name args s = (r, s')"
  shows "\<exists>x. s' = s\<lparr>executed := executed s @ [name # args], report := report s @ x\<rparr>"
proof -
  let ?s1 = "s\<lparr>executed := executed s @ [name # args]\<rparr>"
  let ?ws = "if combined (runCmd env (name # args)) = [] then (None, ?s1)
             else writeBytes env (combined (runCmd env (name # args))) ?s1"
  have "\<exists>x. snd ?ws = ?s1\<lparr>report := report ?s1 @ x\<rparr>"
  proof (cases "combined (runCmd env (name # args)) = []")
    case True
    then show ?thesis by (auto intro: exI[of _ "[]"])
  next
    case False
    obtain e1 s2 where w: "writeBytes env (combined (runCmd env (name # args))) ?s1 = (e1, s2)"
      by (cases "writeBytes env (combined (runCmd env (name # args))) ?s1")
    from writeBytes_shape[OF w] False w show ?thesis by auto
  qed
  moreover have "s' = snd ?ws"
    using assms by (auto simp: appendCommandOutput_def Let_def split: option.splits if_splits)
  ultimately show ?thesis by auto
qed

lemma diagnostic_state:
  assumes "diagnostic env allowWarn name args s = (e, s')"
  shows "\<exists>x ws. s' = s\<lparr>executed := executed s @ [name # args], report := report s @ x,
                        result := (result s)\<lparr>Warnings := Warnings (result s) @ ws\<rparr>\<rparr>
                \<and> (\<not> allowWarn \<longrightarrow> ws = [])"
proof -
  obtain warn e1 s1 where a: "appendCommandOutput env allowWarn name args s = ((warn, e1), s1)"
    by (cases "appendCommandOutput env allowWarn name args s") auto
  from appendCommandOutput_state[OF a] obtain x where
    s1: "s1 = s\<lparr>executed := executed s @ [name # args], report := report s @ x\<rparr>" by blast
  have nw: "\<not> allowWarn \<Longrightarrow> warn = []"
    using a by (auto simp: appendCommandOutput_def Let_def split: option.splits if_splits)
  show ?thesis
  proof (cases "e1 = None \<and> warn \<noteq> []")
    case True
    with a assms have "s' = s1\<lparr>result := (result s1)\<lparr>Warnings := Warnings (result s1) @ [warn]\<rparr>\<rparr>"
      by (auto simp: diagnostic_def)
    with s1 True nw show ?thesis by (intro exI[of _ x] exI[of _ "[warn]"]) auto
  next
    case False
    with a assms have "s' = s1"
      by (auto simp: diagnostic_def split: option.splits)
    with s1 show ?thesis by (intro exI[of _ x] exI[of _ "[]"]) auto
  qed
qed

lemma saveBrewJSON_state:
  assumes "saveBrewJSON env s = (e, s')"
  shows "s' = s \<or> s' = s\<lparr>created := created s @ [absJSON s],
                        executed := executed s @ [[''brew'', ''info'', ''--installed'', ''--json=v2'']]\<rparr>"
  using assms by (auto simp: saveBrewJSON_def writeBrewJSON_def Let_def split: option.splits)

lemma asIs_state: "asIs r = (e, s') \<Longrightarrow> s' = snd r"
  by (simp add: asIs_def)

lemma collectAppBundles_state:
  assumes "collectAppBundles env s = (e, s')"
  shows "\<exists>x st. s' = s\<lparr>executed := executed s @ [mdfindCmd], stats := st, report := report s @ x\<rparr>"
proof -
  obtain r s1 where c: "commandLines env ''mdfind'' [mdfindQuery] s = (r, s1)"
    by (cases "commandLines env ''mdfind'' [mdfindQuery] s")
  from commandLines_state[OF c] have s1: "s1 = s\<lparr>executed := executed s @ [mdfindCmd]\<rparr>" .
  show ?thesis
  proof (cases r)
    case (Inl a)
    with assms c have "s' = s1" by (simp add: collectAppBundles_def)
    with s1 have "s' = s\<lparr>executed := executed s @ [mdfindCmd], stats := stats s, report := report s @ []\<rparr>"
      by simp
    then show ?thesis by blast
  next
    case (Inr ls)
    let ?s2 = "s1\<lparr>stats := (stats s1)\<lparr>AppBundleCount := int (length (sort ls))\<rparr>\<rparr>"
    obtain e1 s3 where w: "writeLines env (sort ls) ?s2 = (e1, s3)"
      by (cases "writeLines env (sort ls) ?s2")
    with assms c Inr have "s' = s3" by (simp add: collectAppBundles_def Let_def asIs_def)
    moreover from writeLines_shape[OF w] obtain x where "s3 = ?s2\<lparr>report := report ?s2 @ x\<rparr>" by blast
    ultimately have "s' = s\<lparr>executed := executed s @ [mdfindCmd],
        stats := (stats s)\<lparr>AppBundleCount := int (length (sort ls))\<rparr>, report := report s @ x\<rparr>"
      using s1 by simp
    then show ?thesis by blast
  qed
qed

lemma collectCasks_state:
  assumes "collectCasks env s = (e, s')"
  shows "\<exists>x st. s' = s\<lparr>executed := executed s @ [casksCmd], stats := st, report := report s @ x\<rparr>"
proof -
  obtain r s1 where c: "commandLines env ''brew'' [''list'', ''--cask'', ''--versions''] s = (r, s1)"
    by (cases "commandLines env ''brew'' [''list'', ''--cask'', ''--versions''] s")
  from commandLines_state[OF c] have s1: "s1 = s\<lparr>executed := executed s @ [casksCmd]\<rparr>" .
  show ?thesis
  proof (cases r)
    case (Inl a)
    with assms c have "s' = s1" by (simp add: collectCasks_def)
    with s1 have "s' = s\<lparr>executed := executed s @ [casksCmd], stats := stats s, report := report s @ []\<rparr>"
      by simp
    then show ?thesis by blast
  next
    case (Inr ls)
    let ?s2 = "s1\<lparr>stats := (stats s1)\<lparr>BrewCaskCount := int (length (sort ls))\<rparr>\<rparr>"
    obtain e1 s3 where w: "writeLines env (sort ls) ?s2 = (e1, s3)"
      by (cases "writeLines env (sort ls) ?s2")
    with assms c Inr have "s' = s3" by (simp add: collectCasks_def Let_def asIs_def)
    moreover from writeLines_shape[OF w] obtain x where "s3 = ?s2\<lparr>report := report ?s2 @ x\<rparr>" by blast
    ultimately have "s' = s\<lparr>executed := executed s @ [casksCmd],
        stats := (stats s)\<lparr>BrewCaskCount := int (length (sort ls))\<rparr>, report := report s @ x\<rparr>"
      using s1 by simp
    then show ?thesis by blast
  qed
qed

lemma collectFormulae_state:
  assumes "collectFormulae env s = (e, s')"
  shows "\<exists>x st. s' = s\<lparr>executed := executed s @ [formulaeCmd], stats := st, report := report s @ x\<rparr>"
proof -
  obtain r s1 where c: "commandLines env ''brew'' [''list'', ''--formula'', ''--versions''] s = (r, s1)"
    by (cases "commandLines env ''brew'' [''list'', ''--formula'', ''--versions''] s")
  from commandLines_state[OF c] have s1: "s1 = s\<lparr>executed := executed s @ [formulaeCmd]\<rparr>" .
  show ?thesis
  proof (cases r)
    case (Inl a)
    with assms c have "s' = s1" by (simp add: collectFormulae_def)
    with s1 have "s' = s\<lparr>executed := executed s @ [formulaeCmd], stats := stats s, report := report s @ []\<rparr>"
      by simp
    then show ?thesis by blast
  next
    case (Inr ls)
    let ?s2 = "s1\<lparr>stats := (stats s1)\<lparr>BrewFormulaCount := int (length (sort ls))\<rparr>\<rparr>"
    obtain e1 s3 where w: "writeLines env (sort ls) ?s2 = (e1, s3)"
      by (cases "writeLines env (sort ls) ?s2")
    with assms c Inr have "s' = s3" by (simp add: collectFormulae_def Let_def asIs_def)
    moreover from writeLines_shape[OF w] obtain x where "s3 = ?s2\<lparr>report := report ?s2 @ x\<rparr>" by blast
    ultimately have "s' = s\<lparr>executed := executed s @ [formulaeCmd],
        stats := (stats s)\<lparr>BrewFormulaCount := int (length (sort ls))\<rparr>, report := report s @ x\<rparr>"
      using s1 by simp
    then show ?thesis by blast
  qed
qed

lemma collectSystemApps_state:
  assumes "collectSystemApps env s = (e, s')"
  shows "\<exists>x st. s' = s\<lparr>stats := st, report := report s @ x\<rparr>"
proof (cases "readDir env ''/Applications''")
  case (Inl a)
  with assms have "s' = s" by (simp add: collectSystemApps_def listDirSorted_def)
  then have "s' = s\<lparr>stats := stats s, report := report s @ []\<rparr>" by simp
  then show ?thesis by blast
next
  case (Inr names)
  let ?s1 = "s\<lparr>stats := (stats s)\<lparr>ApplicationsDirCount := int (length (sort names))\<rparr>\<rparr>"
  obtain e1 s2 where w: "writeLines env (sort names) ?s1 = (e1, s2)"
    by (cases "writeLines env (sort names) ?s1")
  with assms Inr have "s' = s2" by (simp add: collectSystemApps_def listDirSorted_def Let_def asIs_def)
  moreover from writeLines_shape[OF w] obtain x where "s2 = ?s1\<lparr>report := report ?s1 @ x\<rparr>" by blast
  ultimately have "s' = s\<lparr>stats := (stats s)\<lparr>ApplicationsDirCount := int (length (sort names))\<rparr>,
      report := report s @ x\<rparr>" by simp
  then show ?thesis by blast
qed

lemma collectUserApps_state:
  assumes "collectUserApps env s = (e, s')"
  shows "\<exists>x st. s' = s\<lparr>stats := st, report := report s @ x\<rparr>"
proof (cases "readDir env (userAppsDir env)")
  case (Inl a)
  with assms have "s' = s" by (simp add: collectUserApps_def listDirSorted_def)
  then have "s' = s\<lparr>stats := stats s, report := report s @ []\<rparr>" by simp
  then show ?thesis by blast
next
  case (Inr names)
  let ?s1 = "s\<lparr>stats := (stats s)\<lparr>UserApplicationsCount := int (length (sort names))\<rparr>\<rparr>"
  obtain e1 s2 where w: "writeLines env (sort names) ?s1 = (e1, s2)"
    by (cases "writeLines env (sort names) ?s1")
  with assms Inr have "s' = s2" by (simp add: collectUserApps_def listDirSorted_def Let_def asIs_def)
  moreover from writeLines_shape[OF w] obtain x where "s2 = ?s1\<lparr>report := report ?s1 @ x\<rparr>" by blast
  ultimately have "s' = s\<lparr>stats := (stats s)\<lparr>UserApplicationsCount := int (length (sort names))\<rparr>,
      report := report s @ x\<rparr>" by simp
  then show ?thesis by blast
qed

lemma collectCaskroom_state:
  assumes "collectCaskroom env s = (e, s')"
  shows "\<exists>x w. s' = s\<lparr>executed := executed s @ [prefixCmd], walked := walked s @ w,
                       report := report s @ x\<rparr>"
proof -
  obtain ds e1 s1 where c: "caskroomDirectories env s = ((ds, e1), s1)"
    by (cases "caskroomDirectories env s") auto
  from caskroomDirectories_state[OF c] obtain w where
    s1: "s1 = s\<lparr>executed := executed s @ [prefixCmd], walked := walked s @ w\<rparr>" by blast
  show ?thesis
  proof (cases e1)
    case (Some a)
    with assms c have "s' = s1" by (simp add: collectCaskroom_def)
    with s1 have "s' = s\<lparr>executed := executed s @ [prefixCmd], walked := walked s @ w,
                          report := report s @ []\<rparr>" by simp
    then show ?thesis by blast
  next
    case None
    obtain e2 s2 where wl: "writeLines env ds s1 = (e2, s2)" by (cases "writeLines env ds s1")
    with assms c None have "s' = s2" by (simp add: collectCaskroom_def asIs_def)
    moreover from writeLines_shape[OF wl] obtain x where "s2 = s1\<lparr>report := report s1 @ x\<rparr>" by blast
    ultimately have "s' = s\<lparr>executed := executed s @ [prefixCmd], walked := walked s @ w,
                          report := report s @ x\<rparr>" using s1 by simp
    then show ?thesis by blast
  qed
qed

lemma collectCaskroom_None:
  assumes "collectCaskroom env s = (None, s')"
  shows "\<exists>ds s1. caskroomDirectories env s = ((ds, None), s1) \<and>
                 s' = s1\<lparr>report := report s1 @ linesText ds\<rparr>"
proof -
  obtain ds e1 s1 where c: "caskroomDirectories env s = ((ds, e1), s1)"
    by (cases "caskroomDirectories env s") auto
  with assms have e1: "e1 = None" by (cases e1) (auto simp: collectCaskroom_def)
  with assms c have "writeLines env ds s1 = (None, s')" by (simp add: collectCaskroom_def asIs_None)
  from writeLines_None[OF this] c e1 show ?thesis by blast
qed

section \<open>The stretches of a successful run\<close>

lemma setup_None:
  assumes "runSteps (setupSteps env opts) initial = (None, s)"
  shows "\<exists>r j. absPath env (reportPath opts) = Inr r \<and> absPath env (jsonPath opts) = Inr j \<and>
           lookPath env ''mdfind'' \<and> lookPath env ''brew'' \<and>
           s = initial\<lparr>absReport := r, absJSON := j,
                 madeDirs := [dirOf env r, dirOf env j], created := [r],
                 result := zeroResult\<lparr>ReportPath := r,
                             BrewJSONPath := (if compactMode opts then [] else j),
                             StartedAt := timeStart env\<rparr>\<rparr>"
  using assms
  by (auto simp: setupSteps_def requireCommand_def ensureCommand_def resolveReportPath_def
        resolveJSONPath_def makeParentDir_def createReport_def beginResult_def Let_def
        initial_def zeroResult_def
      split: if_splits sum.splits option.splits)

lemma inventory_None:
  assumes "runSteps (inventorySteps env opts) s = (None, s')"
  shows "\<exists>names paths ex wk.
      readDir env ''/Applications'' = Inr names \<and>
      failure (runCmd env mdfindCmd) = None \<and>
      failure (runCmd env casksCmd) = None \<and>
      failure (runCmd env formulaeCmd) = None \<and>
      (if compactMode opts then paths = [] \<and> ex = [] \<and> wk = []
       else \<exists>ds sa sb. caskroomDirectories env sa = ((ds, None), sb) \<and>
              paths = ''\<newline>-- Installed paths --\<newline>'' @ linesText ds \<and> ex = [prefixCmd]) \<and>
      s' = s\<lparr>executed := executed s @ [mdfindCmd, casksCmd] @ ex @ [formulaeCmd],
             walked := walked s @ wk,
             stats := (stats s)\<lparr>
               AppBundleCount := int (length (sortedLines env mdfindCmd)),
               ApplicationsDirCount := int (length (sort names)),
               UserApplicationsCount :=
                 (case readDir env (userAppsDir env) of
                    Inl e \<Rightarrow> UserApplicationsCount (stats s)
                  | Inr ns \<Rightarrow> int (length (sort ns))),
               BrewCaskCount := int (length (sortedLines env casksCmd)),
               BrewFormulaCount := int (length (sortedLines env formulaeCmd))\<rparr>,
             report := report s
               @ headerText ''MAC SYSTEM + USER INSTALLED APPLICATIONS (.app bundles)''
               @ linesText (sortedLines env mdfindCmd)
               @ ''\<newline>-- /Applications ---\<newline>''
               @ linesText (sort names)
               @ ''\<newline>-- ~/Applications ---\<newline>''
               @ linesText (userApps env)
               @ headerText ''HOMEBREW CASK APPLICATIONS (GUI)''
               @ linesText (sortedLines env casksCmd)
               @ paths
               @ headerText ''HOMEBREW FORMULAE (CLI tools)''
               @ linesText (sortedLines env formulaeCmd)\<rparr>"
proof -
  let ?head = "[sectionHeader env ''MAC SYSTEM + USER INSTALLED APPLICATIONS (.app bundles)'',
      collectAppBundles env,
      printLine env (\<lambda>s. []),
      printLine env (\<lambda>s. ''-- /Applications ---''),
      collectSystemApps env,
      printLine env (\<lambda>s. []),
      printLine env (\<lambda>s. ''-- ~/Applications ---''),
      collectUserApps env,
      sectionHeader env ''HOMEBREW CASK APPLICATIONS (GUI)'',
      collectCasks env]"
  let ?mid = "if \<not> compactMode opts then
          [printLine env (\<lambda>s. []),
           printLine env (\<lambda>s. ''-- Installed paths --''),
           collectCaskroom env]
        else []"
  let ?tail = "[sectionHeader env ''HOMEBREW FORMULAE (CLI tools)'', collectFormulae env]"
  define uc where "uc = (case readDir env (userAppsDir env) of
                    Inl e \<Rightarrow> UserApplicationsCount (stats s)
                  | Inr ns \<Rightarrow> int (length (sort ns)))"
  from assms obtain s1 s2 where
    f: "runSteps ?head s = (None, s1)" and m: "runSteps ?mid s1 = (None, s2)"
    and b: "runSteps ?tail s2 = (None, s')"
    unfolding inventorySteps_def by (elim runSteps_appendE) 
  from f obtain names where
    n: "readDir env ''/Applications'' = Inr names"
    and f1: "failure (runCmd env mdfindCmd) = None" and f2: "failure (runCmd env casksCmd) = None"
    and s1: "s1 = s\<lparr>executed := executed s @ [mdfindCmd, casksCmd],
             stats := (stats s)\<lparr>
               AppBundleCount := int (length (sortedLines env mdfindCmd)),
               ApplicationsDirCount := int (length (sort names)),
               UserApplicationsCount := uc,
               BrewCaskCount := int (length (sortedLines env casksCmd))\<rparr>,
             report := report s
               @ headerText ''MAC SYSTEM + USER INSTALLED APPLICATIONS (.app bundles)''
               @ linesText (sortedLines env mdfindCmd)
               @ ''\<newline>-- /Applications ---\<newline>''
               @ linesText (sort names)
               @ ''\<newline>-- ~/Applications ---\<newline>''
               @ linesText (userApps env)
               @ headerText ''HOMEBREW CASK APPLICATIONS (GUI)''
               @ linesText (sortedLines env casksCmd)\<rparr>"
    apply (elim runSteps_ConsE)
    apply (drule sectionHeader_None collectAppBundles_None printLine_None collectSystemApps_None
                 collectUserApps_None collectCasks_None)+
    apply (auto simp: uc_def split: sum.splits)
    done
  from b obtain f3: "failure (runCmd env formulaeCmd) = None"
    and s': "s' = s2\<lparr>executed := executed s2 @ [formulaeCmd],
                stats := (stats s2)\<lparr>BrewFormulaCount := int (length (sortedLines env formulaeCmd))\<rparr>,
                report := report s2 @ headerText ''HOMEBREW FORMULAE (CLI tools)''
                          @ linesText (sortedLines env formulaeCmd)\<rparr>"
    apply (elim runSteps_ConsE)
    apply (drule sectionHeader_None collectFormulae_None)+
    apply auto
    done
  show ?thesis
  proof (cases "compactMode opts")
    case True
    with m have "s2 = s1" by simp
    with True n f1 f2 f3 s1 s' show ?thesis
      by (intro exI[of _ names] exI[of _ "[]"]) (simp add: uc_def)
  next
    case False
    with m have "runSteps [printLine env (\<lambda>s. []),
           printLine env (\<lambda>s. ''-- Installed paths --''),
           collectCaskroom env] s1 = (None, s2)" by (simp del: runSteps.simps)
    then obtain ds sa sb where c: "caskroomDirectories env sa = ((ds, None), sb)"
      and sa: "sa = s1\<lparr>report := report s1 @ ''\<newline>-- Installed paths --\<newline>''\<rparr>"
      and s2: "s2 = sb\<lparr>report := report sb @ linesText ds\<rparr>"
      apply (elim runSteps_ConsE)
      apply (drule printLine_None collectCaskroom_None)+
      apply auto
      done
    from caskroomDirectories_state[OF c] obtain w where
      sb: "sb = sa\<lparr>executed := executed sa @ [prefixCmd], walked := walked sa @ w\<rparr>" by blast
    show ?thesis
      apply (rule exI[of _ names])
      apply (rule exI[of _ "''\<newline>-- Installed paths --\<newline>'' @ linesText ds"])
      apply (rule exI[of _ "[prefixCmd]"])
      apply (rule exI[of _ w])
      using False n f1 f2 f3 c s1 s' s2 sa sb
      apply (simp add: uc_def)
      apply blast
      done
  qed
qed

lemma flushReport_None: "flushReport env s = (None, s') \<Longrightarrow> s' = s"
  by (auto simp: flushReport_def)

lemma finalizeResult_eq:
  "finalizeResult env opts s = (e, s') \<Longrightarrow>
     e = None \<and>
     s' = s\<lparr>result := (result s)\<lparr>
            ReportSizeBytes := fileSize env (absReport s),
            BrewJSONSizeBytes := (if compactMode opts then BrewJSONSizeBytes (result s)
                                  else fileSize env (absJSON s)),
            Stats := stats s,
            CompletedAt := timeEnd env,
            DurationSeconds := real_of_int (timeEnd env - StartedAt (result s)) / 1000000000,
            Compact := compactMode opts\<rparr>\<rparr>"
  by (auto simp: finalizeResult_def Let_def)

lemma closing_None:
  assumes "runSteps (closingSteps env opts) s = (None, s')"
  shows "s' = s\<lparr>report := report s @ closingText opts (absReport s) (absJSON s),
                result := (result s)\<lparr>
                  ReportSizeBytes := fileSize env (absReport s),
                  BrewJSONSizeBytes := (if compactMode opts then BrewJSONSizeBytes (result s)
                                        else fileSize env (absJSON s)),
                  Stats := stats s,
                  CompletedAt := timeEnd env,
                  DurationSeconds := real_of_int (timeEnd env - StartedAt (result s)) / 1000000000,
                  Compact := compactMode opts\<rparr>\<rparr>"
proof (cases "compactMode opts")
  case True
  with assms show ?thesis
    unfolding closingSteps_def
    apply (simp del: runSteps.simps)
    apply (elim runSteps_ConsE)
    apply (drule printLine_None flushReport_None finalizeResult_eq)+
    apply (simp add: closingText_def linesText_def)
    done
next
  case False
  with assms show ?thesis
    unfolding closingSteps_def
    apply (simp del: runSteps.simps)
    apply (elim runSteps_ConsE)
    apply (drule printLine_None flushReport_None finalizeResult_eq)+
    apply (simp add: closingText_def linesText_def)
    done
qed

text \<open>What the diagnostic stretch leaves alone, whatever its outcome.\<close>

lemma diagnostics_state:
  assumes "runSteps (diagnosticSteps env opts) s = (e, s')"
  shows "stats s' = stats s \<and> absReport s' = absReport s \<and> absJSON s' = absJSON s \<and>
         prefix (report s) (report s') \<and> prefix (executed s) (executed s') \<and>
         prefix (Warnings (result s)) (Warnings (result s')) \<and>
         (result s')\<lparr>Warnings := []\<rparr> = (result s)\<lparr>Warnings := []\<rparr> \<and>
         (compactMode opts \<longrightarrow> s' = s)"
proof (cases "compactMode opts")
  case True
  with assms show ?thesis by (simp add: diagnosticSteps_def)
next
  case False
  let ?P = "\<lambda>t. stats t = stats s \<and> absReport t = absReport s \<and> absJSON t = absJSON s \<and>
         prefix (report s) (report t) \<and> prefix (executed s) (executed t) \<and>
         prefix (Warnings (result s)) (Warnings (result t)) \<and>
         (result t)\<lparr>Warnings := []\<rparr> = (result s)\<lparr>Warnings := []\<rparr>"
  have step: "?P t'" if "f \<in> set (diagnosticSteps env opts)" and "?P t" and "f t = (e1, t')"
    for f t e1 t'
  proof -
    from that(1) False consider
        (hdr) title where "f = sectionHeader env title"
      | (diag) aw args where "f = diagnostic env aw ''brew'' args"
      | (json) "f = saveBrewJSON env"
      | (line) l where "f = printLine env l"
      by (auto simp: diagnosticSteps_def)
    then show ?thesis
    proof cases
      case hdr
      with that(3) sectionHeader_shape obtain x where "t' = t\<lparr>report := report t @ x\<rparr>" by blast
      with that(2) show ?thesis by (auto intro: prefix_order.trans)
    next
      case diag
      with that(3) diagnostic_state obtain x ws where
        "t' = t\<lparr>executed := executed t @ [''brew'' # args], report := report t @ x,
                result := (result t)\<lparr>Warnings := Warnings (result t) @ ws\<rparr>\<rparr>" by blast
      with that(2) show ?thesis by (auto intro: prefix_order.trans)
    next
      case json
      with that(3) saveBrewJSON_state have "t' = t \<or> t' = t\<lparr>created := created t @ [absJSON t],
          executed := executed t @ [[''brew'', ''info'', ''--installed'', ''--json=v2'']]\<rparr>"
        by blast
      with that(2) show ?thesis by (auto intro: prefix_order.trans)
    next
      case line
      with that(3) printLine_shape obtain x where "t' = t\<lparr>report := report t @ x\<rparr>" by blast
      with that(2) show ?thesis by (auto intro: prefix_order.trans)
    qed
  qed
  have "?P s" by simp
  from runSteps_invariant[where P = ?P, OF step this assms] False show ?thesis by simp
qed

section \<open>Trimmed lines\<close>

lemma trimLeft_leading: "leadingSpace (trimLeft s) = None"
proof (induction s rule: trimLeft.induct)
  case (1 s)
  show ?case
  proof (cases "leadingSpace s")
    case None
    then show ?thesis by (subst trimLeft.simps) simp
  next
    case (Some p)
    with 1 show ?thesis by (subst trimLeft.simps) simp
  qed
qed

lemma trimRight_trailing: "trailingSpace (trimRight s) = None"
proof (induction s rule: trimRight.induct)
  case (1 s)
  show ?case
  proof (cases "trailingSpace s")
    case None
    then show ?thesis by (subst trimRight.simps) simp
  next
    case (Some p)
    with 1 show ?thesis by (subst trimRight.simps) simp
  qed
qed

lemma trimRight_prefix: "prefix (trimRight s) s"
proof (induction s rule: trimRight.induct)
  case (1 s)
  show ?case
  proof (cases "trailingSpace s")
    case None
    then show ?thesis by (subst trimRight.simps) simp
  next
    case (Some p)
    with 1 have "prefix (trimRight (take (length s - length p) s)) (take (length s - length p) s)"
      by simp
    moreover have "prefix (take (length s - length p) s) s" by (rule take_is_prefix)
    ultimately have "prefix (trimRight (take (length s - length p) s)) s"
      by (rule prefix_order.trans)
    with Some show ?thesis by (subst trimRight.simps) simp
  qed
qed

lemma trimLeft_suffix: "suffix (trimLeft s) s"
proof (induction s rule: trimLeft.induct)
  case (1 s)
  show ?case
  proof (cases "leadingSpace s")
    case None
    then show ?thesis by (subst trimLeft.simps) simp
  next
    case (Some p)
    with 1 have "suffix (trimLeft (drop (length p) s)) (drop (length p) s)" by simp
    moreover have "suffix (drop (length p) s) s" by (rule suffix_drop)
    ultimately have "suffix (trimLeft (drop (length p) s)) s" by (rule suffix_order.trans)
    with Some show ?thesis by (subst trimLeft.simps) simp
  qed
qed

lemma leadingSpace_prefix:
  assumes "leadingSpace s = None" and "prefix t s"
  shows "leadingSpace t = None"
proof -
  from assms(1) have "\<forall>p\<in>set spaceRunes. \<not> prefix p s"
    by (simp add: leadingSpace_def find_None_iff)
  with assms(2) have "\<forall>p\<in>set spaceRunes. \<not> prefix p t"
    using prefix_order.trans by blast
  then show ?thesis by (simp add: leadingSpace_def find_None_iff)
qed

lemma TrimSpace_trimmed:
  "leadingSpace (TrimSpace s) = None \<and> trailingSpace (TrimSpace s) = None"
  unfolding TrimSpace_def
  using leadingSpace_prefix[OF trimLeft_leading trimRight_prefix] trimRight_trailing by blast

lemma TrimSpace_idem: "TrimSpace (TrimSpace s) = TrimSpace s"
proof -
  let ?u = "TrimSpace s"
  have l: "leadingSpace ?u = None" and t: "trailingSpace ?u = None"
    using TrimSpace_trimmed by blast+
  have "trimLeft ?u = ?u" using l by (subst trimLeft.simps) simp
  moreover have "trimRight ?u = ?u" using t by (subst trimRight.simps) simp
  ultimately show ?thesis by (simp add: TrimSpace_def)
qed

lemma set_TrimSpace: "set (TrimSpace s) \<subseteq> set s"
proof -
  have "set (trimRight (trimLeft s)) \<subseteq> set (trimLeft s)"
    using trimRight_prefix set_mono_prefix by blast
  moreover have "set (trimLeft s) \<subseteq> set s"
    using trimLeft_suffix set_mono_suffix by blast
  ultimately show ?thesis unfolding TrimSpace_def by blast
qed

lemma Split_no_newline: "l \<in> set (Split s) \<Longrightarrow> CHR 0x0A \<notin> set l"
proof (induction s arbitrary: l)
  case Nil
  then show ?case by simp
next
  case (Cons c cs)
  then show ?case by (cases "Split cs") (auto split: if_splits)
qed

lemma parseLines_normalized:
  assumes "l \<in> set (parseLines out)"
  shows "l \<noteq> [] \<and> TrimSpace l = l \<and> CHR 0x0A \<notin> set l"
proof -
  from assms obtain x where x: "x \<in> set (Split (TrimSpace out))" and l: "l = TrimSpace x" and ne: "l \<noteq> []"
    by (auto simp: parseLines_def)
  from Split_no_newline[OF x] set_TrimSpace[of x] l have "CHR 0x0A \<notin> set l" by blast
  with l ne TrimSpace_idem show ?thesis by simp
qed

lemma count_linesText:
  "\<forall>l\<in>set ls. CHR 0x0A \<notin> set l \<Longrightarrow> count_list (linesText ls) (CHR 0x0A) = length ls"
  by (induction ls) (auto simp: linesText_def)

section \<open>A successful run\<close>

lemma runExport_None:
  assumes "runExport env opts = (None, s)"
  obtains r j names paths mid where
      "absPath env (reportPath opts) = Inr r" "absPath env (jsonPath opts) = Inr j"
      "readDir env ''/Applications'' = Inr names"
      "if compactMode opts then paths = []
       else \<exists>ds sa sb. caskroomDirectories env sa = ((ds, None), sb) \<and>
              paths = ''\<newline>-- Installed paths --\<newline>'' @ linesText ds"
      "compactMode opts \<longrightarrow> mid = [] \<and> Warnings (result s) = [] \<and>
           executed s = [mdfindCmd, casksCmd, formulaeCmd]"
      "prefix [mdfindCmd, casksCmd] (executed s)"
      "absReport s = r" "absJSON s = j"
      "report s =
          headerText ''MAC SYSTEM + USER INSTALLED APPLICATIONS (.app bundles)''
        @ linesText (sortedLines env mdfindCmd)
        @ ''\<newline>-- /Applications ---\<newline>''
        @ linesText (sort names)
        @ ''\<newline>-- ~/Applications ---\<newline>''
        @ linesText (userApps env)
        @ headerText ''HOMEBREW CASK APPLICATIONS (GUI)''
        @ linesText (sortedLines env casksCmd)
        @ paths
        @ headerText ''HOMEBREW FORMULAE (CLI tools)''
        @ linesText (sortedLines env formulaeCmd)
        @ mid
        @ closingText opts r j"
      "(result s)\<lparr>Warnings := []\<rparr> =
        \<lparr>ReportPath = r, ReportSizeBytes = fileSize env r,
         BrewJSONPath = (if compactMode opts then [] else j),
         BrewJSONSizeBytes = (if compactMode opts then 0 else fileSize env j),
         Compact = compactMode opts,
         Stats = \<lparr>AppBundleCount = int (length (sortedLines env mdfindCmd)),
                  ApplicationsDirCount = int (length (sort names)),
                  UserApplicationsCount = int (length (userApps env)),
                  BrewCaskCount = int (length (sortedLines env casksCmd)),
                  BrewFormulaCount = int (length (sortedLines env formulaeCmd))\<rparr>,
         DurationSeconds = real_of_int (timeEnd env - timeStart env) / 1000000000,
         StartedAt = timeStart env, CompletedAt = timeEnd env, Warnings = []\<rparr>"
proof -
  from assms obtain s0 s1 s2 where
    a: "runSteps (setupSteps env opts) initial = (None, s0)"
    and b: "runSteps (inventorySteps env opts) s0 = (None, s1)"
    and c: "runSteps (diagnosticSteps env opts) s1 = (None, s2)"
    and d: "runSteps (closingSteps env opts) s2 = (None, s)"
    unfolding runExport_def by (elim runSteps_appendE)
  from setup_None[OF a] obtain r j where
    r: "absPath env (reportPath opts) = Inr r" and j: "absPath env (jsonPath opts) = Inr j"
    and s0: "s0 = initial\<lparr>absReport := r, absJSON := j,
                 madeDirs := [dirOf env r, dirOf env j], created := [r],
                 result := zeroResult\<lparr>ReportPath := r,
                             BrewJSONPath := (if compactMode opts then [] else j),
                             StartedAt := timeStart env\<rparr>\<rparr>" by blast
  from inventory_None[OF b] obtain names paths ex wk where
    n: "readDir env ''/Applications'' = Inr names"
    and p: "if compactMode opts then paths = [] \<and> ex = [] \<and> wk = []
       else \<exists>ds sa sb. caskroomDirectories env sa = ((ds, None), sb) \<and>
              paths = ''\<newline>-- Installed paths --\<newline>'' @ linesText ds \<and> ex = [prefixCmd]"
    and s1: "s1 = s0\<lparr>executed := executed s0 @ [mdfindCmd, casksCmd] @ ex @ [formulaeCmd],
             walked := walked s0 @ wk,
             stats := (stats s0)\<lparr>
               AppBundleCount := int (length (sortedLines env mdfindCmd)),
               ApplicationsDirCount := int (length (sort names)),
               UserApplicationsCount :=
                 (case readDir env (userAppsDir env) of
                    Inl e \<Rightarrow> UserApplicationsCount (stats s0)
                  | Inr ns \<Rightarrow> int (length (sort ns))),
               BrewCaskCount := int (length (sortedLines env casksCmd)),
               BrewFormulaCount := int (length (sortedLines env formulaeCmd))\<rparr>,
             report := report s0
               @ headerText ''MAC SYSTEM + USER INSTALLED APPLICATIONS (.app bundles)''
               @ linesText (sortedLines env mdfindCmd)
               @ ''\<newline>-- /Applications ---\<newline>''
               @ linesText (sort names)
               @ ''\<newline>-- ~/Applications ---\<newline>''
               @ linesText (userApps env)
               @ headerText ''HOMEBREW CASK APPLICATIONS (GUI)''
               @ linesText (sortedLines env casksCmd)
               @ paths
               @ headerText ''HOMEBREW FORMULAE (CLI tools)''
               @ linesText (sortedLines env formulaeCmd)\<rparr>"
    by blast
  have uc: "(case readDir env (userAppsDir env) of
               Inl e \<Rightarrow> UserApplicationsCount (stats s0)
             | Inr ns \<Rightarrow> int (length (sort ns))) = int (length (userApps env))"
    using s0 by (simp add: userApps_def initial_def noStats_def split: sum.splits)
  from diagnostics_state[OF c] have
    d1: "stats s2 = stats s1" "absReport s2 = absReport s1" "absJSON s2 = absJSON s1"
    and d2: "prefix (report s1) (report s2)" and d3: "prefix (executed s1) (executed s2)"
    and d4: "(result s2)\<lparr>Warnings := []\<rparr> = (result s1)\<lparr>Warnings := []\<rparr>"
    and d5: "compactMode opts \<longrightarrow> s2 = s1"
    by blast+
  from d2 obtain mid where mid: "report s2 = report s1 @ mid" by (auto simp: prefix_def)
  from d5 mid have mid0: "compactMode opts \<longrightarrow> mid = []" by auto
  note s = closing_None[OF d]
  have rep: "report s = report s1 @ mid @ closingText opts r j"
    using s mid d1 s1 s0 by simp
  have res: "(result s)\<lparr>Warnings := []\<rparr> = ((result s2)\<lparr>Warnings := []\<rparr>)\<lparr>
                  ReportSizeBytes := fileSize env r,
                  BrewJSONSizeBytes := (if compactMode opts then BrewJSONSizeBytes (result s2)
                                        else fileSize env j),
                  Stats := stats s1,
                  CompletedAt := timeEnd env,
                  DurationSeconds := real_of_int (timeEnd env - StartedAt (result s2)) / 1000000000,
                  Compact := compactMode opts\<rparr>"
    using s d1 s1 s0 by simp
  have r2: "StartedAt (result s2) = StartedAt ((result s2)\<lparr>Warnings := []\<rparr>)"
           "BrewJSONSizeBytes (result s2) = BrewJSONSizeBytes ((result s2)\<lparr>Warnings := []\<rparr>)"
    by simp_all
  have ex: "prefix [mdfindCmd, casksCmd] (executed s)"
  proof -
    have "prefix [mdfindCmd, casksCmd] (executed s1)" using s1 s0 by (simp add: initial_def)
    from prefix_order.trans[OF this d3] s show ?thesis by simp
  qed
  have p': "if compactMode opts then paths = []
       else \<exists>ds sa sb. caskroomDirectories env sa = ((ds, None), sb) \<and>
              paths = ''\<newline>-- Installed paths --\<newline>'' @ linesText ds"
    using p by (cases "compactMode opts") auto
  have cm: "compactMode opts \<longrightarrow> mid = [] \<and> Warnings (result s) = [] \<and>
           executed s = [mdfindCmd, casksCmd, formulaeCmd]"
  proof
    assume c: "compactMode opts"
    with d5 have e: "s2 = s1" by simp
    from c p have "ex = []" by simp
    with s e s1 s0 have "Warnings (result s) = []" "executed s = [mdfindCmd, casksCmd, formulaeCmd]"
      by (simp_all add: initial_def zeroResult_def)
    with mid0 c show "mid = [] \<and> Warnings (result s) = [] \<and>
           executed s = [mdfindCmd, casksCmd, formulaeCmd]" by simp
  qed
  have ar: "absReport s = r" and aj: "absJSON s = j" using s d1 s1 s0 by simp_all
  have rep': "report s =
          headerText ''MAC SYSTEM + USER INSTALLED APPLICATIONS (.app bundles)''
        @ linesText (sortedLines env mdfindCmd)
        @ ''\<newline>-- /Applications ---\<newline>''
        @ linesText (sort names)
        @ ''\<newline>-- ~/Applications ---\<newline>''
        @ linesText (userApps env)
        @ headerText ''HOMEBREW CASK APPLICATIONS (GUI)''
        @ linesText (sortedLines env casksCmd)
        @ paths
        @ headerText ''HOMEBREW FORMULAE (CLI tools)''
        @ linesText (sortedLines env formulaeCmd)
        @ mid
        @ closingText opts r j"
    using rep s1 s0 by (simp add: initial_def)
  have res': "(result s)\<lparr>Warnings := []\<rparr> =
        \<lparr>ReportPath = r, ReportSizeBytes = fileSize env r,
         BrewJSONPath = (if compactMode opts then [] else j),
         BrewJSONSizeBytes = (if compactMode opts then 0 else fileSize env j),
         Compact = compactMode opts,
         Stats = \<lparr>AppBundleCount = int (length (sortedLines env mdfindCmd)),
                  ApplicationsDirCount = int (length (sort names)),
                  UserApplicationsCount = int (length (userApps env)),
                  BrewCaskCount = int (length (sortedLines env casksCmd)),
                  BrewFormulaCount = int (length (sortedLines env formulaeCmd))\<rparr>,
         DurationSeconds = real_of_int (timeEnd env - timeStart env) / 1000000000,
         StartedAt = timeStart env, CompletedAt = timeEnd env, Warnings = []\<rparr>"
  proof -
    define W where "W = Warnings (result s2)"
    have "result s2 = ((result s2)\<lparr>Warnings := []\<rparr>)\<lparr>Warnings := W\<rparr>"
      by (simp add: W_def)
    also have "\<dots> = (result s1)\<lparr>Warnings := W\<rparr>"
      by (simp only: d4) simp
    finally have R: "result s2 = (result s1)\<lparr>Warnings := W\<rparr>" .
    have "result s = (result s2)\<lparr>
                  ReportSizeBytes := fileSize env r,
                  BrewJSONSizeBytes := (if compactMode opts then BrewJSONSizeBytes (result s2)
                                        else fileSize env j),
                  Stats := stats s1,
                  CompletedAt := timeEnd env,
                  DurationSeconds := real_of_int (timeEnd env - StartedAt (result s2)) / 1000000000,
                  Compact := compactMode opts\<rparr>"
      using s d1 s1 s0 by simp
    then show ?thesis
      unfolding R using s1 s0 uc
      by (simp add: initial_def zeroResult_def noStats_def)
  qed
  from that[OF r j n p' cm ex ar aj rep' res'] show ?thesis .
qed

section \<open>Runs that cannot fail\<close>

lemma runSteps_all_ok:
  assumes "\<And>f t. f \<in> set fs \<Longrightarrow> fst (f t) = None"
  shows "fst (runSteps fs s) = None"
  using assms
proof (induction fs arbitrary: s)
  case Nil
  then show ?case by simp
next
  case (Cons f fs)
  from Cons.prems[of f s] have "fst (f s) = None" by simp
  then obtain s1 where "f s = (None, s1)" by (cases "f s") auto
  with Cons show ?case by simp
qed

lemma runSteps_reach:
  assumes "\<And>g t. g \<in> set pre \<Longrightarrow> fst (g t) = None"
  shows "\<exists>s1. runSteps (pre @ fs) s = runSteps fs s1"
proof -
  from runSteps_all_ok[of pre s] assms obtain s1 where "runSteps pre s = (None, s1)"
    by (cases "runSteps pre s") auto
  then have "runSteps (pre @ fs) s = runSteps fs s1" by (simp add: runSteps_append)
  then show ?thesis by blast
qed

lemma writeLines_ok: "\<forall>n. writeErr env n = None \<Longrightarrow> fst (writeLines env ls s) = None"
  by (induction ls arbitrary: s) (auto simp: Fprintln_def writeBytes_def)

lemma printLine_ok: "calm env \<Longrightarrow> fst (printLine env l s) = None"
  by (simp add: calm_def printLine_def asIs_def Fprintln_def writeBytes_def)

lemma sectionHeader_ok: "calm env \<Longrightarrow> fst (sectionHeader env t s) = None"
  by (simp add: calm_def sectionHeader_def asIs_def writeSectionHeader_def writeLines_ok
        del: writeLines.simps)

lemma setup_ok:
  assumes "calm env" "lookPath env ''mdfind''" "lookPath env ''brew''"
    "absPath env (reportPath opts) = Inr r" "absPath env (jsonPath opts) = Inr j"
    "f \<in> set (setupSteps env opts)"
  shows "fst (f t) = None"
  using assms
  by (auto simp: setupSteps_def calm_def requireCommand_def ensureCommand_def
        resolveReportPath_def resolveJSONPath_def makeParentDir_def createReport_def
        beginResult_def Let_def)

lemma collectAppBundles_ok:
  "calm env \<Longrightarrow> failure (runCmd env mdfindCmd) = None \<Longrightarrow> fst (collectAppBundles env t) = None"
  by (simp add: calm_def collectAppBundles_def commandLines_def Let_def asIs_def writeLines_ok)

lemma collectCasks_ok:
  "calm env \<Longrightarrow> failure (runCmd env casksCmd) = None \<Longrightarrow> fst (collectCasks env t) = None"
  by (simp add: calm_def collectCasks_def commandLines_def Let_def asIs_def writeLines_ok)

lemma collectFormulae_ok:
  "calm env \<Longrightarrow> failure (runCmd env formulaeCmd) = None \<Longrightarrow> fst (collectFormulae env t) = None"
  by (simp add: calm_def collectFormulae_def commandLines_def Let_def asIs_def writeLines_ok)

lemma collectSystemApps_ok:
  "calm env \<Longrightarrow> readDir env ''/Applications'' = Inr names \<Longrightarrow> fst (collectSystemApps env t) = None"
  by (simp add: calm_def collectSystemApps_def listDirSorted_def Let_def asIs_def writeLines_ok)

lemma collectUserApps_ok: "calm env \<Longrightarrow> fst (collectUserApps env t) = None"
  by (simp add: calm_def collectUserApps_def listDirSorted_def Let_def asIs_def writeLines_ok
           split: sum.splits)

lemma collectCaskroom_ok:
  assumes "calm env" "\<And>u. snd (fst (caskroomDirectories env u)) = None"
  shows "fst (collectCaskroom env t) = None"
proof -
  obtain ds e s1 where c: "caskroomDirectories env t = ((ds, e), s1)"
    by (cases "caskroomDirectories env t") auto
  with assms(2)[of t] have "e = None" by simp
  with c assms(1) show ?thesis
    by (simp add: calm_def collectCaskroom_def asIs_def writeLines_ok)
qed

lemma inventory_ok:
  assumes "calm env" "failure (runCmd env mdfindCmd) = None" "failure (runCmd env casksCmd) = None"
    "failure (runCmd env formulaeCmd) = None" "readDir env ''/Applications'' = Inr names"
    "compactMode opts \<or> (\<forall>u. snd (fst (caskroomDirectories env u)) = None)"
    "f \<in> set (inventorySteps env opts)"
  shows "fst (f t) = None"
proof -
  from assms(7) consider
      (hdr) title where "f = sectionHeader env title"
    | (line) l where "f = printLine env l"
    | (a) "f = collectAppBundles env" | (b) "f = collectSystemApps env"
    | (c) "f = collectUserApps env" | (d) "f = collectCasks env"
    | (e) "f = collectCaskroom env" "\<not> compactMode opts" | (g) "f = collectFormulae env"
    by (auto simp: inventorySteps_def split: if_splits)
  then show ?thesis
  proof cases
    case e
    with assms(1,6) show ?thesis by (simp add: collectCaskroom_ok)
  qed (use assms in \<open>simp_all add: sectionHeader_ok printLine_ok collectAppBundles_ok
        collectSystemApps_ok collectUserApps_ok collectCasks_ok collectFormulae_ok\<close>)
qed

lemma diagnostic_warn_ok: "fst (diagnostic env True name args t) = None"
  by (simp add: diagnostic_def appendCommandOutput_def Let_def split: option.splits prod.splits)

lemma diagnostic_ok:
  "calm env \<Longrightarrow> failure (runCmd env (name # args)) = None \<Longrightarrow>
     fst (diagnostic env allowWarn name args t) = None"
  by (simp add: calm_def diagnostic_def appendCommandOutput_def Let_def writeBytes_def
           split: option.splits prod.splits)

lemma saveBrewJSON_ok:
  "calm env \<Longrightarrow> failure (runCmd env [''brew'', ''info'', ''--installed'', ''--json=v2'']) = None \<Longrightarrow>
     fst (saveBrewJSON env t) = None"
  by (simp add: calm_def saveBrewJSON_def writeBrewJSON_def Let_def wrapCommandErr_def)

lemma diagnostics_ok:
  assumes "calm env"
    "compactMode opts \<or> failure (runCmd env [''brew'', ''config'']) = None \<and>
       failure (runCmd env [''brew'', ''info'', ''--installed'', ''--json=v2'']) = None"
    "f \<in> set (diagnosticSteps env opts)"
  shows "fst (f t) = None"
  using assms
  by (auto simp: diagnosticSteps_def sectionHeader_ok printLine_ok diagnostic_warn_ok
        diagnostic_ok saveBrewJSON_ok split: if_splits)

lemma closing_ok:
  assumes "calm env" "f \<in> set (closingSteps env opts)"
  shows "fst (f t) = None"
  using assms
  by (auto simp: closingSteps_def printLine_ok flushReport_def finalizeResult_def Let_def calm_def)

lemma runExport_ok:
  assumes "calm env" "lookPath env ''mdfind''" "lookPath env ''brew''"
    "absPath env (reportPath opts) = Inr r" "absPath env (jsonPath opts) = Inr j"
    "failure (runCmd env mdfindCmd) = None" "failure (runCmd env casksCmd) = None"
    "failure (runCmd env formulaeCmd) = None" "readDir env ''/Applications'' = Inr names"
    "compactMode opts \<or> (\<forall>u. snd (fst (caskroomDirectories env u)) = None)"
    "compactMode opts \<or> failure (runCmd env [''brew'', ''config'']) = None \<and>
       failure (runCmd env [''brew'', ''info'', ''--installed'', ''--json=v2'']) = None"
  shows "fst (runExport env opts) = None"
  unfolding runExport_def
proof (rule runSteps_all_ok)
  fix f t
  assume "f \<in> set (setupSteps env opts @ inventorySteps env opts @ diagnosticSteps env opts
                     @ closingSteps env opts)"
  then consider "f \<in> set (setupSteps env opts)" | "f \<in> set (inventorySteps env opts)"
    | "f \<in> set (diagnosticSteps env opts)" | "f \<in> set (closingSteps env opts)"
    by auto
  then show "fst (f t) = None"
  proof cases
    case 1
    with assms show ?thesis using setup_ok by blast
  next
    case 2
    with assms show ?thesis using inventory_ok by blast
  next
    case 3
    with assms show ?thesis using diagnostics_ok by blast
  next
    case 4
    with assms show ?thesis using closing_ok by blast
  qed
qed

section \<open>The sample run\<close>

lemma sampleEnv_fields:
  "lookPath sampleEnv = (\<lambda>n. True)"
  "absPath sampleEnv = (\<lambda>p. Inr (''/Users/me/'' @ p))"
  "dirOf sampleEnv = (\<lambda>p. ''/Users/me'')"
  "joinPath sampleEnv = (\<lambda>a b. a @ ''/'' @ b)"
  "mkdirAll sampleEnv = (\<lambda>d. None)"
  "createFile sampleEnv = (\<lambda>p. None)"
  "writeErr sampleEnv = (\<lambda>n. None)"
  "flushErr sampleEnv = None"
  "runCmd sampleEnv = sampleRun"
  "readDir sampleEnv = (\<lambda>p. if p = ''/Applications'' then Inr [''Safari.app'', ''Mail.app'']
                      else Inl ''no such file or directory'')"
  "userHomeDir sampleEnv = ''/Users/me''"
  "statPath sampleEnv = (\<lambda>p. StatOk)"
  "lstatTree sampleEnv = (\<lambda>p. Inr sampleTree)"
  "statSize sampleEnv = (\<lambda>p. Some 100)"
  "timeStart sampleEnv = 0"
  "timeEnd sampleEnv = 1"
  by (simp_all add: sampleEnv_def)

lemma sample_calm: "calm sampleEnv"
  by (simp add: calm_def sampleEnv_fields)

lemma sample_failures:
  "failure (sampleRun mdfindCmd) = None"
  "failure (sampleRun casksCmd) = None"
  "failure (sampleRun formulaeCmd) = None"
  "failure (sampleRun prefixCmd) = None"
  "failure (sampleRun [''brew'', ''config'']) = None"
  "failure (sampleRun [''brew'', ''info'', ''--installed'', ''--json=v2'']) = None"
  "failure (sampleRun [''brew'', ''doctor'']) = Some ''exit status 1''"
  by (simp_all add: sampleRun_def mdfindQuery_def)

lemma sample_lines:
  "sort (parseLines (combined (sampleRun mdfindCmd))) = [''/Applications/Bar.app'', ''/Applications/Foo.app'']"
  "sort (parseLines (combined (sampleRun casksCmd))) = [''curl 8.0'', ''wget 1.21'']"
  "sort (parseLines (combined (sampleRun formulaeCmd))) = [''git 2.40'']"
  "parseLines (combined (sampleRun prefixCmd)) = [''/opt/homebrew'']"
  by code_simp+

lemma sample_walk:
  "WalkDir sampleEnv (collectDir ''/opt/homebrew/Caskroom'') ''/opt/homebrew/Caskroom''
     \<lparr>visited = [], dirs = []\<rparr> =
   (Continue,
    \<lparr>visited = [''/opt/homebrew/Caskroom'', ''/opt/homebrew/Caskroom/.metadata'',
                 ''/opt/homebrew/Caskroom/firefox'', ''/opt/homebrew/Caskroom/firefox/120.0'',
                 ''/opt/homebrew/Caskroom/firefox/120.0/Firefox.app''],
     dirs = [''/opt/homebrew/Caskroom'', ''/opt/homebrew/Caskroom/firefox'',
              ''/opt/homebrew/Caskroom/firefox/120.0'']\<rparr>)"
  by code_simp

lemma sample_caskroom:
  "caskroomDirectories sampleEnv u =
     (([''/opt/homebrew/Caskroom'', ''/opt/homebrew/Caskroom/firefox'',
        ''/opt/homebrew/Caskroom/firefox/120.0''], None),
      u\<lparr>executed := executed u @ [prefixCmd],
        walked := walked u @ [''/opt/homebrew/Caskroom'', ''/opt/homebrew/Caskroom/.metadata'',
                 ''/opt/homebrew/Caskroom/firefox'', ''/opt/homebrew/Caskroom/firefox/120.0'',
                 ''/opt/homebrew/Caskroom/firefox/120.0/Firefox.app'']\<rparr>)"
proof -
  have s: "sort [''/opt/homebrew/Caskroom'', ''/opt/homebrew/Caskroom/firefox'',
              ''/opt/homebrew/Caskroom/firefox/120.0''] =
           [''/opt/homebrew/Caskroom'', ''/opt/homebrew/Caskroom/firefox'',
              ''/opt/homebrew/Caskroom/firefox/120.0'']" by code_simp
  show ?thesis
    unfolding caskroomDirectories_def commandLines_def Let_def
    by (simp add: sampleEnv_fields sample_failures sample_lines sample_walk s
            del: sort_key_simps)
qed

lemma sample_full_ok: "fst (runExport sampleEnv fullRun) = None"
  by (rule runExport_ok[where r = "''/Users/me/apps.txt''" and j = "''/Users/me/brew.json''"
        and names = "[''Safari.app'', ''Mail.app'']"])
     (simp_all add: sample_calm sampleEnv_fields sample_failures fullRun_def sample_caskroom)

lemma sample_compact_ok: "fst (runExport sampleEnv compactRun) = None"
  by (rule runExport_ok[where r = "''/Users/me/apps.txt''" and j = "''/Users/me/brew.json''"
        and names = "[''Safari.app'', ''Mail.app'']"])
     (simp_all add: sample_calm sampleEnv_fields sample_failures compactRun_def)

section \<open>What each step leaves alone\<close>

lemma quiet_mono: "quiet A t t' \<Longrightarrow> A \<subseteq> B \<Longrightarrow> quiet B t t'"
  unfolding quiet_def by blast

lemma quiet_report: "t' = t\<lparr>report := report t @ x\<rparr> \<Longrightarrow> quiet {} t t'"
  by (simp add: quiet_def)

lemma sectionHeader_quiet: "sectionHeader env title t = (e, t') \<Longrightarrow> quiet {} t t'"
  using sectionHeader_shape quiet_report by blast

lemma printLine_quiet: "printLine env l t = (e, t') \<Longrightarrow> quiet {} t t'"
  using printLine_shape quiet_report by blast

lemma flushReport_quiet: "flushReport env t = (e, t') \<Longrightarrow> quiet {} t t'"
  by (auto simp: flushReport_def quiet_def)

lemma collectSystemApps_quiet: "collectSystemApps env t = (e, t') \<Longrightarrow> quiet {} t t'"
  by (drule collectSystemApps_state) (auto simp: quiet_def)

lemma collectUserApps_quiet: "collectUserApps env t = (e, t') \<Longrightarrow> quiet {} t t'"
  by (drule collectUserApps_state) (auto simp: quiet_def)

lemma collectAppBundles_quiet: "collectAppBundles env t = (e, t') \<Longrightarrow> quiet {mdfindCmd} t t'"
  by (drule collectAppBundles_state) (auto simp: quiet_def)

lemma collectCasks_quiet: "collectCasks env t = (e, t') \<Longrightarrow> quiet {casksCmd} t t'"
  by (drule collectCasks_state) (auto simp: quiet_def)

lemma collectFormulae_quiet: "collectFormulae env t = (e, t') \<Longrightarrow> quiet {formulaeCmd} t t'"
  by (drule collectFormulae_state) (auto simp: quiet_def)

lemma collectCaskroom_quiet: "collectCaskroom env t = (e, t') \<Longrightarrow> quiet {prefixCmd} t t'"
  by (drule collectCaskroom_state) (auto simp: quiet_def)

lemma saveBrewJSON_quiet: "saveBrewJSON env t = (e, t') \<Longrightarrow> quiet {infoCmd} t t'"
  by (drule saveBrewJSON_state) (auto simp: quiet_def)

lemma inventory_kinds:
  assumes "f \<in> set (inventorySteps env opts)"
  obtains (hdr) title where "f = sectionHeader env title"
    | (line) l where "f = printLine env l"
    | (bundles) "f = collectAppBundles env" | (sys) "f = collectSystemApps env"
    | (usr) "f = collectUserApps env" | (casks) "f = collectCasks env"
    | (room) "f = collectCaskroom env" "\<not> compactMode opts"
    | (formulae) "f = collectFormulae env"
  using assms by (auto simp: inventorySteps_def split: if_splits)

lemma inventory_quiet:
  assumes "f \<in> set (inventorySteps env opts)" and "f t = (e, t')"
  shows "quiet (if compactMode opts then {mdfindCmd, casksCmd, formulaeCmd}
                else {mdfindCmd, casksCmd, formulaeCmd, prefixCmd}) t t'"
  using assms(1)
proof (cases rule: inventory_kinds)
  case (hdr title)
  with assms(2) show ?thesis using sectionHeader_quiet quiet_mono by blast
next
  case (line l)
  with assms(2) show ?thesis using printLine_quiet quiet_mono by blast
next
  case bundles
  with assms(2) have "quiet {mdfindCmd} t t'" using collectAppBundles_quiet by blast
  then show ?thesis by (rule quiet_mono) simp
next
  case sys
  with assms(2) show ?thesis using collectSystemApps_quiet quiet_mono by blast
next
  case usr
  with assms(2) show ?thesis using collectUserApps_quiet quiet_mono by blast
next
  case casks
  with assms(2) have "quiet {casksCmd} t t'" using collectCasks_quiet by blast
  then show ?thesis by (rule quiet_mono) simp
next
  case room
  with assms(2) have "quiet {prefixCmd} t t'" using collectCaskroom_quiet by blast
  then show ?thesis by (rule quiet_mono) (use room in simp)
next
  case formulae
  with assms(2) have "quiet {formulaeCmd} t t'" using collectFormulae_quiet by blast
  then show ?thesis by (rule quiet_mono) simp
qed

text \<open>The steps before the report exists, and the steps of the closing banner.\<close>

lemma setup_frame:
  assumes "f \<in> set (setupSteps env opts)" and "f t = (e, t')"
  shows "executed t' = executed t \<and> Warnings (result t') = Warnings (result t) \<and>
         BrewJSONSizeBytes (result t') = BrewJSONSizeBytes (result t) \<and>
         (compactMode opts \<longrightarrow> BrewJSONPath (result t') = BrewJSONPath (result t))"
  using assms
  by (auto simp: setupSteps_def requireCommand_def resolveReportPath_def resolveJSONPath_def
        makeParentDir_def createReport_def beginResult_def Let_def
      split: sum.splits option.splits)

lemma closing_frame:
  assumes "f \<in> set (closingSteps env opts)" and "f t = (e, t')"
  shows "executed t' = executed t \<and> Warnings (result t') = Warnings (result t) \<and>
         ReportPath (result t') = ReportPath (result t) \<and>
         BrewJSONPath (result t') = BrewJSONPath (result t) \<and>
         (compactMode opts \<longrightarrow> BrewJSONSizeBytes (result t') = BrewJSONSizeBytes (result t)) \<and>
         absReport t' = absReport t \<and> created t' = created t"
proof -
  from assms(1) consider (line) l where "f = printLine env l" | (flush) "f = flushReport env"
    | (final) "f = finalizeResult env opts"
    by (auto simp: closingSteps_def split: if_splits)
  then show ?thesis
  proof cases
    case (line l)
    with assms(2) printLine_shape obtain x where "t' = t\<lparr>report := report t @ x\<rparr>" by blast
    then show ?thesis by simp
  next
    case flush
    with assms(2) show ?thesis by (auto simp: flushReport_def)
  next
    case final
    with assms(2) finalizeResult_eq[of env opts t e t'] show ?thesis by auto
  qed
qed

lemma not_in_subset: "set xs \<subseteq> A \<Longrightarrow> x \<notin> A \<Longrightarrow> x \<notin> set xs"
  by blast

lemma compact_invariant:
  assumes "compactMode opts" and "runExport env opts = (e, s)"
  shows "Warnings (result s) = [] \<and> BrewJSONPath (result s) = [] \<and>
         BrewJSONSizeBytes (result s) = 0 \<and>
         set (executed s) \<subseteq> {mdfindCmd, casksCmd, formulaeCmd}"
proof -
  let ?P = "\<lambda>t. Warnings (result t) = [] \<and> BrewJSONPath (result t) = [] \<and>
         BrewJSONSizeBytes (result t) = 0 \<and>
         set (executed t) \<subseteq> {mdfindCmd, casksCmd, formulaeCmd}"
  let ?fs = "setupSteps env opts @ inventorySteps env opts @ diagnosticSteps env opts
             @ closingSteps env opts"
  have step: "?P t'" if "f \<in> set ?fs" and "?P t" and "f t = (e1, t')" for f t e1 t'
  proof -
    from that(1) assms(1) consider "f \<in> set (setupSteps env opts)"
      | "f \<in> set (inventorySteps env opts)" | "f \<in> set (closingSteps env opts)"
      by (auto simp: diagnosticSteps_def)
    then show ?thesis
    proof cases
      case 1
      from setup_frame[OF 1 that(3)] assms(1) that(2) show ?thesis by simp
    next
      case 2
      from inventory_quiet[OF 2 that(3)] assms(1)
      have "quiet {mdfindCmd, casksCmd, formulaeCmd} t t'" by simp
      with that(2) show ?thesis by (auto simp: quiet_def)
    next
      case 3
      from closing_frame[OF 3 that(3)] assms(1) that(2) show ?thesis by simp
    qed
  qed
  have "?P initial" by (simp add: initial_def zeroResult_def)
  from runSteps_invariant[where P = ?P, OF step this assms(2)[unfolded runExport_def]]
  show ?thesis .
qed

lemma tail_exists:
  "x = a1 @ a2 @ a3 @ a4 @ a5 @ a6 @ a7 @ a8 @ a9 @ a10 @ a11 @ a12 @ c \<Longrightarrow> \<exists>before. x = before @ c"
  by (rule exI[of _ "a1 @ a2 @ a3 @ a4 @ a5 @ a6 @ a7 @ a8 @ a9 @ a10 @ a11 @ a12"]) simp


lemma prefix_of_layout: "x = a @ b @ c \<Longrightarrow> prefix (a @ b) x"
  by (simp add: prefix_def)

section \<open>The walk and its depth\<close>

lemma relDepth_child:
  assumes "prefix c path" and "CHR ''/'' \<notin> set name"
  shows "relDepth c (path @ ''/'' @ name) = Suc (relDepth c path)"
proof -
  from assms(1) obtain rest where p: "path = c @ rest" by (auto simp: prefix_def)
  have "count_list name CHR ''/'' = 0" using assms(2) by (simp add: count_list_0_iff)
  then show ?thesis by (simp add: relDepth_def TrimPrefix_def p)
qed

lemma collectDir_cases:
  assumes "collectDir c path isDir werr w = (r, w')"
  shows "visited w' = visited w \<and>
         (dirs w' = dirs w \<or> dirs w' = dirs w @ [path] \<and> isDir \<and> relDepth c path \<le> 2) \<and>
         (r = Continue \<and> isDir \<and> werr = None \<longrightarrow> relDepth c path \<le> 2)"
  using assms by (auto simp: collectDir_def split: option.splits if_splits)

lemma walkInv_mono: "walkInv c ok w \<Longrightarrow> set ok \<subseteq> set ok' \<Longrightarrow> walkInv c ok' w"
  unfolding walkInv_def by blast

lemma walk_bounded:
  "prefix c path \<Longrightarrow> relDepth c path \<le> 3 \<Longrightarrow> plainNames node \<Longrightarrow>
     walkInv c ok w \<Longrightarrow> walkDir (collectDir c) path node w = (r, w') \<Longrightarrow>
     walkInv c (ok @ dirPaths path node) w'"
  "prefix c path \<Longrightarrow> relDepth c path \<le> 2 \<Longrightarrow> list_all plainNames es \<Longrightarrow>
     walkInv c ok w \<Longrightarrow> walkEntries (collectDir c) path es w = (r, w') \<Longrightarrow>
     walkInv c (ok @ concat (map (\<lambda>d. dirPaths (path @ ''/'' @ nodeName d) d) es)) w'"
proof (induction "collectDir c" path node w and "collectDir c" path es w
       arbitrary: r w' ok and r w' ok rule: walkDir_walkEntries.induct)
  case (1 path n w)
  from collectDir_cases[OF 1(5)[simplified]] 1(1-4) show ?case
    by (auto simp: walkInv_def visit_def)
next
  case (2 path n es w)
  obtain r1 w1 where c: "collectDir c path True None (visit path w) = (r1, w1)"
    by (cases "collectDir c path True None (visit path w)")
  from collectDir_cases[OF c] 2(2-5)
  have i1: "walkInv c (ok @ [path]) w1" and d: "r1 = Continue \<longrightarrow> relDepth c path \<le> 2"
    by (auto simp: walkInv_def visit_def)
  show ?case
  proof (cases r1)
    case Continue
    with c 2(6) have e: "walkEntries (collectDir c) path es w1 = (r, w')" by simp
    from 2(4) have "list_all plainNames es" by simp
    from 2(1)[OF c[symmetric] Continue 2(2) _ this i1 e] d Continue
    show ?thesis by simp
  next
    case SkipDir
    with c 2(6) have "w' = w1" by simp
    with i1 show ?thesis by (auto intro: walkInv_mono)
  next
    case (WalkFail x)
    with c 2(6) have "w' = w1" by simp
    with i1 show ?thesis by (auto intro: walkInv_mono)
  qed
next
  case (3 path n e w)
  obtain r1 w1 where c: "collectDir c path True None (visit path w) = (r1, w1)"
    by (cases "collectDir c path True None (visit path w)")
  from collectDir_cases[OF c] 3(1-4)
  have i1: "walkInv c (ok @ [path]) w1"
    by (auto simp: walkInv_def visit_def)
  obtain r2 w2 where c2: "collectDir c path True (Some e) (visit path w1) = (r2, w2)"
    by (cases "collectDir c path True (Some e) (visit path w1)")
  from collectDir_cases[OF c2] i1 3(2) have i2: "walkInv c (ok @ [path]) w2"
    by (auto simp: walkInv_def visit_def collectDir_def)
  from 3(5) c c2 have "w' = w1 \<or> w' = w2"
    by (cases r1; cases r2) auto
  with i1 i2 show ?case by auto
next
  case (4 path w)
  then show ?case by simp
next
  case (5 path d1 ds w)
  obtain r1 w1 where c: "walkDir (collectDir c) (path @ ''/'' @ nodeName d1) d1 w = (r1, w1)"
    by (cases "walkDir (collectDir c) (path @ ''/'' @ nodeName d1) d1 w")
  from 5(5) have pn: "plainNames d1" and rest: "list_all plainNames ds" by simp_all
  from pn have nm: "CHR ''/'' \<notin> set (nodeName d1)" by (cases d1) simp_all
  have pc: "prefix c (path @ ''/'' @ nodeName d1)" using 5(3) by (auto simp: prefix_def)
  have dc: "relDepth c (path @ ''/'' @ nodeName d1) \<le> 3"
    using relDepth_child[OF 5(3) nm] 5(4) by simp
  from 5(1)[OF pc dc pn 5(6) c]
  have i1: "walkInv c (ok @ dirPaths (path @ ''/'' @ nodeName d1) d1) w1" .
  show ?case
  proof (cases r1)
    case Continue
    with c 5(7) have e: "walkEntries (collectDir c) path ds w1 = (r, w')" by simp
    from 5(2)[OF c[symmetric] Continue 5(3) 5(4) rest i1 e] show ?thesis by simp
  next
    case SkipDir
    with c 5(7) have "w' = w1" by simp
    with i1 show ?thesis by (auto intro: walkInv_mono)
  next
    case (WalkFail x)
    with c 5(7) have "w' = w1" by simp
    with i1 show ?thesis by (auto intro: walkInv_mono)
  qed
qed

lemma relDepth_self: "relDepth c c = 0"
  by (simp add: relDepth_def TrimPrefix_def)

lemma WalkDir_bounded:
  assumes "\<forall>tree. lstatTree env c = Inr tree \<longrightarrow> plainNames tree"
    and "WalkDir env (collectDir c) c \<lparr>visited = [], dirs = []\<rparr> = (r, w)"
  shows "(\<forall>v \<in> set (visited w). relDepth c v \<le> 3) \<and>
         (\<forall>d \<in> set (dirs w). relDepth c d \<le> 2 \<and> d \<in> set (visited w) \<and>
            (\<exists>tree. lstatTree env c = Inr tree \<and> d \<in> set (dirPaths c tree)))"
proof (cases "lstatTree env c")
  case (Inl e)
  with assms(2) have "w = visit c \<lparr>visited = [], dirs = []\<rparr>"
    by (auto simp: WalkDir_def collectDir_def split: prod.splits walkResult.splits)
  then show ?thesis by (simp add: visit_def relDepth_self)
next
  case (Inr tree)
  obtain r1 where "walkDir (collectDir c) c tree \<lparr>visited = [], dirs = []\<rparr> = (r1, w)"
    using assms(2) Inr by (auto simp: WalkDir_def split: prod.splits walkResult.splits)
  moreover have "walkInv c [] \<lparr>visited = [], dirs = []\<rparr>" by (simp add: walkInv_def)
  moreover have "plainNames tree" using assms(1) Inr by simp
  ultimately have "walkInv c ([] @ dirPaths c tree) w"
    using walk_bounded(1)[of c c tree "[]" "\<lparr>visited = [], dirs = []\<rparr>" r1 w]
    by (simp add: relDepth_self)
  with Inr show ?thesis by (simp add: walkInv_def)
qed

lemma sample_prefix:
  "commandLines sampleEnv ''brew'' [''--prefix''] initial =
     (Inr [''/opt/homebrew''], initial\<lparr>executed := executed initial @ [prefixCmd]\<rparr>)"
  by (simp add: commandLines_def sampleEnv_fields sample_failures sample_lines)

lemma sample_plain: "plainNames sampleTree"
  by (simp add: sampleTree_def)

section \<open>What a step writes, whatever its outcome\<close>

lemma writeLines_written:
  "writeLines env ls s = (e, s') \<Longrightarrow>
     \<exists>x. s' = s\<lparr>report := report s @ x\<rparr> \<and> prefix x (linesText ls) \<and> (e = None \<longrightarrow> x = linesText ls)"
proof (induction ls arbitrary: s)
  case Nil
  then show ?case by (auto simp: linesText_def intro: exI[of _ "[]"])
next
  case (Cons l ls)
  show ?case
  proof (cases "writeErr env (length (report s))")
    case (Some a)
    with Cons.prems have "(Some a, s) = (e, s')" by (simp add: Fprintln_def writeBytes_def)
    then have "s' = s" "e \<noteq> None" by auto
    then show ?thesis by (auto intro: exI[of _ "[]"])
  next
    case None
    let ?s1 = "s\<lparr>report := report s @ l @ [CHR 0x0A]\<rparr>"
    from None Cons.prems have "writeLines env ls ?s1 = (e, s')"
      by (simp add: Fprintln_def writeBytes_def)
    from Cons.IH[OF this] obtain y where y: "s' = ?s1\<lparr>report := report ?s1 @ y\<rparr>"
      and p: "prefix y (linesText ls)" and f: "e = None \<longrightarrow> y = linesText ls" by blast
    have l: "linesText (l # ls) = (l @ [CHR 0x0A]) @ linesText ls" by (simp add: linesText_def)
    from y have "s' = s\<lparr>report := report s @ ((l @ [CHR 0x0A]) @ y)\<rparr>" by simp
    moreover from p have "prefix ((l @ [CHR 0x0A]) @ y) (linesText (l # ls))"
      unfolding l by (simp only: same_prefix_prefix)
    moreover from f have "e = None \<longrightarrow> (l @ [CHR 0x0A]) @ y = linesText (l # ls)"
      unfolding l by simp
    ultimately show ?thesis by blast
  qed
qed

lemma emitsI:
  assumes "\<And>t e t'. f t = (e, t') \<Longrightarrow>
             \<exists>x. report t' = report t @ x \<and> prefix x txt \<and> (e = None \<longrightarrow> x = txt)"
  shows "emits f txt"
  unfolding emits_def using assms by blast


lemma asIs_written:
  assumes "asIs (writeLines env ls u) = (e, t')"
  shows "\<exists>x. report t' = report u @ x \<and> prefix x (linesText ls) \<and> (e = None \<longrightarrow> x = linesText ls)"
proof -
  obtain e1 u1 where w: "writeLines env ls u = (e1, u1)" by (cases "writeLines env ls u")
  with assms have "t' = u1" "e = None \<longleftrightarrow> e1 = None" by (auto simp: asIs_def)
  with writeLines_written[OF w] show ?thesis by auto
qed

lemma writeLines_single: "writeLines env [l] t = Fprintln env l t"
  by (cases "Fprintln env l t") (auto split: option.splits)

lemma printLine_emits: "emits (printLine env (\<lambda>s. l)) (linesText [l])"
proof (rule emitsI)
  fix t e t'
  assume "printLine env (\<lambda>s. l) t = (e, t')"
  then have "asIs (writeLines env [l] t) = (e, t')"
    by (simp only: printLine_def writeLines_single)
  from asIs_written[OF this]
  show "\<exists>x. report t' = report t @ x \<and> prefix x (linesText [l]) \<and> (e = None \<longrightarrow> x = linesText [l])" .
qed

lemma sectionHeader_emits: "emits (sectionHeader env title) (headerText title)"
proof (rule emitsI)
  fix t e t'
  assume "sectionHeader env title t = (e, t')"
  then have "asIs (writeLines env ['''', divider, title, divider] t) = (e, t')"
    by (simp add: sectionHeader_def writeSectionHeader_def)
  from asIs_written[OF this]
  show "\<exists>x. report t' = report t @ x \<and> prefix x (headerText title) \<and> (e = None \<longrightarrow> x = headerText title)"
    unfolding headerText_def .
qed

lemma nothing_written:
  "report t' = report t \<Longrightarrow> e \<noteq> None \<Longrightarrow>
     \<exists>x. report t' = report t @ x \<and> prefix x txt \<and> (e = None \<longrightarrow> x = txt)"
  by (auto intro: exI[of _ "[]"])

lemma collectAppBundles_emits: "emits (collectAppBundles env) (linesText (sortedLines env mdfindCmd))"
proof (rule emitsI)
  fix t e t'
  assume a: "collectAppBundles env t = (e, t')"
  let ?T = "linesText (sortedLines env mdfindCmd)"
  show "\<exists>x. report t' = report t @ x \<and> prefix x ?T \<and> (e = None \<longrightarrow> x = ?T)"
  proof (cases "failure (runCmd env mdfindCmd)")
    case (Some x)
    with a have "report t' = report t" "e \<noteq> None"
      by (auto simp: collectAppBundles_def commandLines_def Let_def wrapCommandErr_def)
    then show ?thesis by (rule nothing_written)
  next
    case None
    let ?ls = "sortedLines env mdfindCmd"
    let ?u = "t\<lparr>executed := executed t @ [mdfindCmd], stats := (stats t)\<lparr>AppBundleCount := int (length ?ls)\<rparr>\<rparr>"
    from None a have "asIs (writeLines env ?ls ?u) = (e, t')"
      by (simp add: collectAppBundles_def commandLines_def Let_def)
    from asIs_written[OF this] show ?thesis by simp
  qed
qed

lemma collectCasks_emits: "emits (collectCasks env) (linesText (sortedLines env casksCmd))"
proof (rule emitsI)
  fix t e t'
  assume a: "collectCasks env t = (e, t')"
  let ?T = "linesText (sortedLines env casksCmd)"
  show "\<exists>x. report t' = report t @ x \<and> prefix x ?T \<and> (e = None \<longrightarrow> x = ?T)"
  proof (cases "failure (runCmd env casksCmd)")
    case (Some x)
    with a have "report t' = report t" "e \<noteq> None"
      by (auto simp: collectCasks_def commandLines_def Let_def wrapCommandErr_def)
    then show ?thesis by (rule nothing_written)
  next
    case None
    let ?ls = "sortedLines env casksCmd"
    let ?u = "t\<lparr>executed := executed t @ [casksCmd], stats := (stats t)\<lparr>BrewCaskCount := int (length ?ls)\<rparr>\<rparr>"
    from None a have "asIs (writeLines env ?ls ?u) = (e, t')"
      by (simp add: collectCasks_def commandLines_def Let_def)
    from asIs_written[OF this] show ?thesis by simp
  qed
qed

lemma collectFormulae_emits: "emits (collectFormulae env) (linesText (sortedLines env formulaeCmd))"
proof (rule emitsI)
  fix t e t'
  assume a: "collectFormulae env t = (e, t')"
  let ?T = "linesText (sortedLines env formulaeCmd)"
  show "\<exists>x. report t' = report t @ x \<and> prefix x ?T \<and> (e = None \<longrightarrow> x = ?T)"
  proof (cases "failure (runCmd env formulaeCmd)")
    case (Some x)
    with a have "report t' = report t" "e \<noteq> None"
      by (auto simp: collectFormulae_def commandLines_def Let_def wrapCommandErr_def)
    then show ?thesis by (rule nothing_written)
  next
    case None
    let ?ls = "sortedLines env formulaeCmd"
    let ?u = "t\<lparr>executed := executed t @ [formulaeCmd], stats := (stats t)\<lparr>BrewFormulaCount := int (length ?ls)\<rparr>\<rparr>"
    from None a have "asIs (writeLines env ?ls ?u) = (e, t')"
      by (simp add: collectFormulae_def commandLines_def Let_def)
    from asIs_written[OF this] show ?thesis by simp
  qed
qed

lemma collectSystemApps_emits: "emits (collectSystemApps env) (linesText (systemApps env))"
proof (rule emitsI)
  fix t e t'
  assume a: "collectSystemApps env t = (e, t')"
  let ?T = "linesText (systemApps env)"
  show "\<exists>x. report t' = report t @ x \<and> prefix x ?T \<and> (e = None \<longrightarrow> x = ?T)"
  proof (cases "readDir env ''/Applications''")
    case (Inl x)
    with a have "report t' = report t" "e \<noteq> None"
      by (auto simp: collectSystemApps_def listDirSorted_def wrapCommandErr_def)
    then show ?thesis by (rule nothing_written)
  next
    case (Inr names)
    let ?u = "t\<lparr>stats := (stats t)\<lparr>ApplicationsDirCount := int (length (sort names))\<rparr>\<rparr>"
    from Inr a have "asIs (writeLines env (sort names) ?u) = (e, t')"
      by (simp add: collectSystemApps_def listDirSorted_def Let_def)
    from asIs_written[OF this] Inr show ?thesis by (simp add: systemApps_def)
  qed
qed

lemma collectUserApps_emits: "emits (collectUserApps env) (linesText (userApps env))"
proof (rule emitsI)
  fix t e t'
  assume a: "collectUserApps env t = (e, t')"
  let ?T = "linesText (userApps env)"
  show "\<exists>x. report t' = report t @ x \<and> prefix x ?T \<and> (e = None \<longrightarrow> x = ?T)"
  proof (cases "readDir env (userAppsDir env)")
    case (Inl x)
    with a have "report t' = report t" "e = None" "?T = []"
      by (auto simp: collectUserApps_def listDirSorted_def userApps_def linesText_def)
    then show ?thesis by (auto intro: exI[of _ "[]"])
  next
    case (Inr names)
    let ?u = "t\<lparr>stats := (stats t)\<lparr>UserApplicationsCount := int (length (sort names))\<rparr>\<rparr>"
    from Inr a have "asIs (writeLines env (sort names) ?u) = (e, t')"
      by (simp add: collectUserApps_def listDirSorted_def Let_def)
    from asIs_written[OF this] Inr show ?thesis by (simp add: userApps_def)
  qed
qed

lemma caskroomDirectories_value:
  "fst (caskroomDirectories env s) = fst (caskroomDirectories env t)"
  by (simp add: caskroomDirectories_def commandLines_def Let_def
           split: option.splits list.splits statResult.splits prod.splits walkResult.splits)

lemma caskroomDirectories_paths:
  "caskroomDirectories env s = ((ds, e), s') \<Longrightarrow> ds = caskroomPaths env"
proof -
  assume "caskroomDirectories env s = ((ds, e), s')"
  then have "fst (caskroomDirectories env s) = (ds, e)" by simp
  then have "fst (caskroomDirectories env initial) = (ds, e)"
    by (simp only: caskroomDirectories_value[of env initial s])
  then show ?thesis by (simp add: caskroomPaths_def)
qed

lemma collectCaskroom_emits: "emits (collectCaskroom env) (linesText (caskroomPaths env))"
proof (rule emitsI)
  fix t e t'
  assume a: "collectCaskroom env t = (e, t')"
  let ?T = "linesText (caskroomPaths env)"
  obtain ds e1 s1 where c: "caskroomDirectories env t = ((ds, e1), s1)"
    by (cases "caskroomDirectories env t") auto
  from caskroomDirectories_state[OF c] have r: "report s1 = report t" by auto
  note ds = caskroomDirectories_paths[OF c]
  show "\<exists>x. report t' = report t @ x \<and> prefix x ?T \<and> (e = None \<longrightarrow> x = ?T)"
  proof (cases e1)
    case (Some x)
    with a c r have "report t' = report t" "e \<noteq> None" by (auto simp: collectCaskroom_def)
    then show ?thesis by (rule nothing_written)
  next
    case None
    with a c have "asIs (writeLines env ds s1) = (e, t')" by (simp add: collectCaskroom_def)
    from asIs_written[OF this] r ds show ?thesis by simp
  qed
qed

lemma runSteps_emits:
  assumes "list_all2 emits fs txs" and "runSteps fs s = (e, s')"
  shows "\<exists>x. report s' = report s @ x \<and> prefix x (concat txs) \<and> (e = None \<longrightarrow> x = concat txs)"
  using assms
proof (induction fs txs arbitrary: s rule: list_all2_induct)
  case Nil
  then show ?case by simp
next
  case (Cons f fs tx txs)
  obtain e1 s1 where f: "f s = (e1, s1)" by (cases "f s")
  with Cons.hyps(1) obtain x where x: "report s1 = report s @ x" and p: "prefix x tx"
    and ok: "e1 = None \<longrightarrow> x = tx" unfolding emits_def by blast
  show ?case
  proof (cases e1)
    case (Some a)
    with f Cons.prems have "s' = s1" "e \<noteq> None" by auto
    moreover from p have "prefix x (concat (tx # txs))" by (auto simp: prefix_def)
    ultimately show ?thesis using x by auto
  next
    case None
    with f Cons.prems have "runSteps fs s1 = (e, s')" by simp
    from Cons.IH[OF this] obtain y where y: "report s' = report s1 @ y"
      and q: "prefix y (concat txs)" and ok2: "e = None \<longrightarrow> y = concat txs" by blast
    from None ok have xt: "x = tx" by simp
    from y x have "report s' = report s @ (x @ y)" by simp
    moreover from q have "prefix (x @ y) (concat (tx # txs))" by (simp add: xt)
    moreover from ok2 have "e = None \<longrightarrow> x @ y = concat (tx # txs)" by (simp add: xt)
    ultimately show ?thesis by blast
  qed
qed

lemma inventory_emits:
  "\<exists>txs. list_all2 emits (inventorySteps env opts) txs \<and> concat txs = inventoryText env opts"
proof (cases "compactMode opts")
  case True
  let ?txs = "[headerText ''MAC SYSTEM + USER INSTALLED APPLICATIONS (.app bundles)'',
      linesText (sortedLines env mdfindCmd),
      linesText [[]], linesText [''-- /Applications ---''], linesText (systemApps env),
      linesText [[]], linesText [''-- ~/Applications ---''], linesText (userApps env),
      headerText ''HOMEBREW CASK APPLICATIONS (GUI)'', linesText (sortedLines env casksCmd),
      headerText ''HOMEBREW FORMULAE (CLI tools)'', linesText (sortedLines env formulaeCmd)]"
  have "list_all2 emits (inventorySteps env opts) ?txs"
    using True
    by (simp add: inventorySteps_def sectionHeader_emits printLine_emits collectAppBundles_emits
          collectSystemApps_emits collectUserApps_emits collectCasks_emits collectFormulae_emits)
  moreover have "concat ?txs = inventoryText env opts"
    using True by (simp add: inventoryText_def linesText_def)
  ultimately show ?thesis by blast
next
  case False
  let ?txs = "[headerText ''MAC SYSTEM + USER INSTALLED APPLICATIONS (.app bundles)'',
      linesText (sortedLines env mdfindCmd),
      linesText [[]], linesText [''-- /Applications ---''], linesText (systemApps env),
      linesText [[]], linesText [''-- ~/Applications ---''], linesText (userApps env),
      headerText ''HOMEBREW CASK APPLICATIONS (GUI)'', linesText (sortedLines env casksCmd),
      linesText [[]], linesText [''-- Installed paths --''], linesText (caskroomPaths env),
      headerText ''HOMEBREW FORMULAE (CLI tools)'', linesText (sortedLines env formulaeCmd)]"
  have "list_all2 emits (inventorySteps env opts) ?txs"
    using False
    by (simp add: inventorySteps_def sectionHeader_emits printLine_emits collectAppBundles_emits
          collectSystemApps_emits collectUserApps_emits collectCasks_emits collectFormulae_emits
          collectCaskroom_emits)
  moreover have "concat ?txs = inventoryText env opts"
    using False by (simp add: inventoryText_def linesText_def)
  ultimately show ?thesis by blast
qed

lemma inventory_written:
  assumes "runSteps (inventorySteps env opts) s = (e, s')"
  shows "\<exists>x. report s' = report s @ x \<and> prefix x (inventoryText env opts) \<and>
              (e = None \<longrightarrow> x = inventoryText env opts)"
proof -
  from inventory_emits obtain txs where a: "list_all2 emits (inventorySteps env opts) txs"
    and b: "concat txs = inventoryText env opts" by blast
  from runSteps_emits[OF a assms] show ?thesis unfolding b .
qed

lemma setup_report:
  assumes "runSteps (setupSteps env opts) initial = (e, s)"
  shows "report s = []"
proof -
  have step: "report t' = []" if "f \<in> set (setupSteps env opts)" and "report t = []"
    and "f t = (e1, t')" for f t e1 t'
    using that
    by (auto simp: setupSteps_def requireCommand_def resolveReportPath_def resolveJSONPath_def
          makeParentDir_def createReport_def beginResult_def Let_def
        split: sum.splits option.splits)
  have "report initial = []" by (simp add: initial_def)
  from runSteps_invariant[where P = "\<lambda>t. report t = []", OF step this assms] show ?thesis .
qed







section \<open>The diagnostic stretch of a successful run\<close>

lemma config_None:
  assumes "diagnostic env False ''brew'' [''config''] t = (None, t')"
  shows "failure (runCmd env configCmd) = None \<and>
         t' = t\<lparr>executed := executed t @ [configCmd],
                report := report t @ combined (runCmd env configCmd)\<rparr>"
  using assms
  by (auto simp: diagnostic_def appendCommandOutput_def Let_def writeBytes_def wrapCommandErr_def
           split: option.splits if_splits prod.splits)

lemma doctor_written:
  assumes "diagnostic env True ''brew'' [''doctor''] t = (e, t')"
  shows "\<exists>dout. (dout = combined (runCmd env doctorCmd) \<or>
                  dout = [] \<and> writeErr env (length (report t)) \<noteq> None) \<and>
                 report t' = report t @ dout \<and> absJSON t' = absJSON t"
proof (cases "combined (runCmd env doctorCmd) = [] \<or> writeErr env (length (report t)) = None")
  case True
  with assms have "report t' = report t @ combined (runCmd env doctorCmd) \<and> absJSON t' = absJSON t"
    by (auto simp: diagnostic_def appendCommandOutput_def Let_def writeBytes_def
             split: option.splits if_splits prod.splits)
  then show ?thesis by blast
next
  case False
  with assms have "report t' = report t @ [] \<and> absJSON t' = absJSON t"
    by (auto simp: diagnostic_def appendCommandOutput_def Let_def writeBytes_def
             split: option.splits if_splits prod.splits)
  with False show ?thesis by blast
qed

lemma diagnostics_None:
  assumes "\<not> compactMode opts" and "runSteps (diagnosticSteps env opts) s = (None, s')"
  shows "\<exists>dout. failure (runCmd env configCmd) = None \<and>
           (dout = combined (runCmd env doctorCmd) \<or> dout = [] \<and> (\<exists>n. writeErr env n \<noteq> None)) \<and>
           report s' = report s @ diagnosticText env dout (absJSON s)"
proof -
  from assms have "runSteps [sectionHeader env ''BREW ENV & METADATA'',
         diagnostic env False ''brew'' [''config''],
         diagnostic env True ''brew'' [''doctor''],
         sectionHeader env ''FULL BREW PACKAGE METADATA (JSON)'',
         saveBrewJSON env,
         printLine env (\<lambda>s. ''Saved JSON -> '' @ absJSON s)] s = (None, s')"
    by (simp add: diagnosticSteps_def del: runSteps.simps)
  then obtain s1 s2 s3 s4 s5 where
    h1: "sectionHeader env ''BREW ENV & METADATA'' s = (None, s1)"
    and c: "diagnostic env False ''brew'' [''config''] s1 = (None, s2)"
    and d: "diagnostic env True ''brew'' [''doctor''] s2 = (None, s3)"
    and h2: "sectionHeader env ''FULL BREW PACKAGE METADATA (JSON)'' s3 = (None, s4)"
    and j: "saveBrewJSON env s4 = (None, s5)"
    and p: "printLine env (\<lambda>s. ''Saved JSON -> '' @ absJSON s) s5 = (None, s')"
    by (elim runSteps_ConsE) simp
  note a1 = sectionHeader_None[OF h1]
  from config_None[OF c] have f: "failure (runCmd env configCmd) = None"
    and a2: "s2 = s1\<lparr>executed := executed s1 @ [configCmd],
                report := report s1 @ combined (runCmd env configCmd)\<rparr>" by blast+
  from doctor_written[OF d] obtain dout where
    o: "dout = combined (runCmd env doctorCmd) \<or> dout = [] \<and> writeErr env (length (report s2)) \<noteq> None"
    and a3: "report s3 = report s2 @ dout" "absJSON s3 = absJSON s2" by blast
  note a4 = sectionHeader_None[OF h2]
  from saveBrewJSON_state[OF j] have a5: "report s5 = report s4" "absJSON s5 = absJSON s4" by auto
  note a6 = printLine_None[OF p]
  have "report s' = report s @ diagnosticText env dout (absJSON s)"
    using a1 a2 a3 a4 a5 a6 by (simp add: diagnosticText_def linesText_def)
  moreover from o have "dout = combined (runCmd env doctorCmd) \<or> dout = [] \<and> (\<exists>n. writeErr env n \<noteq> None)"
    by blast
  ultimately show ?thesis using f by blast
qed

section \<open>The report of a successful run\<close>

lemma runExport_layout:
  assumes "runExport env opts = (None, s)"
  obtains r j dout where
    "absPath env (reportPath opts) = Inr r" "absPath env (jsonPath opts) = Inr j"
    "dout = combined (runCmd env doctorCmd) \<or> dout = [] \<and> (\<exists>n. writeErr env n \<noteq> None)"
    "\<not> compactMode opts \<longrightarrow> failure (runCmd env configCmd) = None"
    "report s = inventoryText env opts
              @ (if compactMode opts then [] else diagnosticText env dout j)
              @ closingText opts r j"
proof -
  from assms obtain s0 s1 s2 where
    a: "runSteps (setupSteps env opts) initial = (None, s0)"
    and b: "runSteps (inventorySteps env opts) s0 = (None, s1)"
    and c: "runSteps (diagnosticSteps env opts) s1 = (None, s2)"
    and d: "runSteps (closingSteps env opts) s2 = (None, s)"
    unfolding runExport_def by (elim runSteps_appendE)
  from setup_None[OF a] obtain r j where
    r: "absPath env (reportPath opts) = Inr r" and j: "absPath env (jsonPath opts) = Inr j"
    and s0: "absReport s0 = r" "absJSON s0 = j" by auto
  from setup_report[OF a] inventory_written[OF b] have r1: "report s1 = inventoryText env opts"
    by auto
  have f1: "absReport s1 = r \<and> absJSON s1 = j"
  proof -
    let ?P = "\<lambda>t. absReport t = r \<and> absJSON t = j"
    have step: "?P t'" if "f \<in> set (inventorySteps env opts)" and "?P t" and "f t = (e, t')"
      for f t e t'
      using inventory_quiet[OF that(1,3)] that(2) by (auto simp: quiet_def)
    from runSteps_invariant[where P = ?P, OF step _ b] s0 show ?thesis by simp
  qed
  from diagnostics_state[OF c] f1 have f2: "absReport s2 = r" "absJSON s2 = j"
    and cm: "compactMode opts \<longrightarrow> s2 = s1" by simp_all
  from closing_None[OF d] f2 have r3: "report s = report s2 @ closingText opts r j" by simp
  show ?thesis
  proof (cases "compactMode opts")
    case True
    with cm r1 r3 have "report s = inventoryText env opts
              @ (if compactMode opts then [] else diagnosticText env [] j)
              @ closingText opts r j" by simp
    moreover have "[] = combined (runCmd env doctorCmd) \<or> [] = ([]::string) \<and> (\<exists>n. writeErr env n \<noteq> None) \<or> True"
      by simp
    ultimately show ?thesis using that[of r j "combined (runCmd env doctorCmd)"] r j True by simp
  next
    case False
    from diagnostics_None[OF False c] f1 obtain dout where
      f: "failure (runCmd env configCmd) = None"
      and o: "dout = combined (runCmd env doctorCmd) \<or> dout = [] \<and> (\<exists>n. writeErr env n \<noteq> None)"
      and r2: "report s2 = report s1 @ diagnosticText env dout j" by auto
    from r1 r2 r3 False have "report s = inventoryText env opts
              @ (if compactMode opts then [] else diagnosticText env dout j)
              @ closingText opts r j" by simp
    with that[OF r j o] f show ?thesis by simp
  qed
qed

lemma Split_line: "CHR 0x0A \<notin> set l \<Longrightarrow> Split (l @ CHR 0x0A # rest) = l # Split rest"
  by (induction l) auto

lemma Split_linesText:
  "\<forall>l\<in>set ls. CHR 0x0A \<notin> set l \<Longrightarrow> Split (linesText ls) = ls @ [[]]"
proof (induction ls)
  case Nil
  then show ?case by (simp add: linesText_def)
next
  case (Cons l ls)
  then have "Split (linesText ls) = ls @ [[]]" and n: "CHR 0x0A \<notin> set l" by simp_all
  moreover have "linesText (l # ls) = l @ CHR 0x0A # linesText ls" by (simp add: linesText_def)
  ultimately show ?case using Split_line[OF n] by simp
qed

section \<open>The preflight check\<close>

text \<open>
  C7. The two \<open>ensureCommand\<close> checks are the first steps of \<open>runExport\<close>: when \<open>mdfind\<close>
  or \<open>brew\<close> is not found, the run returns the missing-dependency error of the first
  one that is missing, and it has created no file, made no directory, written nothing,
  executed no command and left the result at its zero value.
\<close>

theorem preflight_precedes_output:
  assumes "\<not> (lookPath env ''mdfind'' \<and> lookPath env ''brew'')"
  shows "(fst (runExport env opts) =
            Some (CLIError ''mdfind is required but not found in PATH''
                   (''Spotlight CLI missing. Ensure you'' @ [CHR 0x27] @ ''re on macOS with Spotlight enabled.'')
                   [''which mdfind'', ''echo $PATH'']) \<and> \<not> lookPath env ''mdfind''
          \<or>
          fst (runExport env opts) =
            Some (CLIError ''brew is required but not found in PATH''
                   ''Install Homebrew from https://brew.sh/ to capture casks and formulae.''
                   [''which brew'', ''echo $PATH'']) \<and> lookPath env ''mdfind'') \<and>
         created (snd (runExport env opts)) = [] \<and>
         madeDirs (snd (runExport env opts)) = [] \<and>
         report (snd (runExport env opts)) = [] \<and>
         executed (snd (runExport env opts)) = [] \<and>
         result (snd (runExport env opts)) = zeroResult"
proof (cases "lookPath env ''mdfind''")
  case False
  then have "runExport env opts =
      (Some (CLIError ''mdfind is required but not found in PATH''
         (''Spotlight CLI missing. Ensure you'' @ [CHR 0x27] @ ''re on macOS with Spotlight enabled.'')
              [''which mdfind'', ''echo $PATH'']), initial)"
    by (simp add: runExport_def setupSteps_def requireCommand_def ensureCommand_def)
  with False show ?thesis
    by (simp add: initial_def)
next
  case True
  with assms have nb: "\<not> lookPath env ''brew''" by simp
  with True have "runExport env opts =
      (Some (CLIError ''brew is required but not found in PATH''
         ''Install Homebrew from https://brew.sh/ to capture casks and formulae.''
         [''which brew'', ''echo $PATH'']), initial)"
    by (simp add: runExport_def setupSteps_def requireCommand_def ensureCommand_def)
  with True show ?thesis
    by (simp add: initial_def)
qed

theorem preflight_precedes_output_witness:
  "\<not> (lookPath (sampleEnv\<lparr>lookPath := (\<lambda>n. n \<noteq> ''brew'')\<rparr>) ''mdfind'' \<and>
       lookPath (sampleEnv\<lparr>lookPath := (\<lambda>n. n \<noteq> ''brew'')\<rparr>) ''brew'') \<and>
   fst (runExport (sampleEnv\<lparr>lookPath := (\<lambda>n. n \<noteq> ''brew'')\<rparr>) fullRun) =
     Some (CLIError ''brew is required but not found in PATH''
            ''Install Homebrew from https://brew.sh/ to capture casks and formulae.''
            [''which brew'', ''echo $PATH'']) \<and>
   created (snd (runExport (sampleEnv\<lparr>lookPath := (\<lambda>n. n \<noteq> ''brew'')\<rparr>) fullRun)) = []"
  using preflight_precedes_output [of "sampleEnv\<lparr>lookPath := (\<lambda>n. n \<noteq> ''brew'')\<rparr>" fullRun]
  by simp


section \<open>Entries and lines\<close>

lemma parseLines_trimmed:
  assumes "l \<in> set (parseLines out)"
  shows "l \<noteq> [] \<and> CHR 0x0A \<notin> set l \<and> (\<forall>p \<in> set spaceRunes. \<not> prefix p l \<and> \<not> suffix p l)"
proof -
  from assms obtain x where l: "l = TrimSpace x" by (auto simp: parseLines_def)
  from TrimSpace_trimmed[of x] have "\<forall>p \<in> set spaceRunes. \<not> prefix p l \<and> \<not> suffix p l"
    unfolding l leadingSpace_def trailingSpace_def by (simp add: find_None_iff)
  with parseLines_normalized[OF assms] show ?thesis by simp
qed

lemma sortedLines_trimmed:
  "\<forall>l \<in> set (sort (parseLines out)).
     l \<noteq> [] \<and> CHR 0x0A \<notin> set l \<and> (\<forall>p \<in> set spaceRunes. \<not> prefix p l \<and> \<not> suffix p l)"
  using parseLines_trimmed[of _ out] by simp

lemma sortedLines_physical:
  "Split (linesText (sort (parseLines out))) = sort (parseLines out) @ [[]]"
  by (rule Split_linesText) (use sortedLines_trimmed[of out] in blast)





section \<open>Counts and written lines\<close>

text \<open>
  C1. When the export succeeds, the report is exactly, in this order: the header of the
  application section and the sorted lines of \<open>mdfind\<close>; the \<open>/Applications\<close> label and
  the sorted names of that directory; the \<open>~/Applications\<close> label and the sorted names
  found there; the cask header and the sorted lines of \<open>brew list --cask\<close>; outside
  compact mode the Caskroom paths; the formula header and the sorted lines of
  \<open>brew list --formula\<close>; outside compact mode the diagnostic section; the closing banner.
  Every section of entries is followed by an empty line. Each of the five counts of
  \<open>Stats\<close> is the number of entries written for its category, one \<open>Fprintln\<close> each.
  An entry that comes from a command is not empty, holds no newline and neither starts
  nor ends with white space, so the entries of these three sections are exactly the
  lines of the section and the count is their number. A directory name is written as
  the directory holds it: the count is the number of names, and it is the number of
  lines of the section when no name holds a newline.
\<close>

theorem stats_count_written_entries:
  assumes "runExport env opts = (None, s)"
  shows "\<exists>r j names doctorOut.
      absPath env (reportPath opts) = Inr r \<and> absPath env (jsonPath opts) = Inr j \<and>
      readDir env ''/Applications'' = Inr names \<and>
      (doctorOut = combined (runCmd env doctorCmd) \<or> doctorOut = []) \<and>
      report s =
          headerText ''MAC SYSTEM + USER INSTALLED APPLICATIONS (.app bundles)''
        @ linesText (sortedLines env mdfindCmd)
        @ ''\<newline>-- /Applications ---\<newline>''
        @ linesText (sort names)
        @ ''\<newline>-- ~/Applications ---\<newline>''
        @ linesText (userApps env)
        @ headerText ''HOMEBREW CASK APPLICATIONS (GUI)''
        @ linesText (sortedLines env casksCmd)
        @ (if compactMode opts then []
           else ''\<newline>-- Installed paths --\<newline>'' @ linesText (caskroomPaths env))
        @ headerText ''HOMEBREW FORMULAE (CLI tools)''
        @ linesText (sortedLines env formulaeCmd)
        @ (if compactMode opts then []
           else headerText ''BREW ENV & METADATA''
                @ combined (runCmd env configCmd)
                @ doctorOut
                @ headerText ''FULL BREW PACKAGE METADATA (JSON)''
                @ linesText [''Saved JSON -> '' @ j])
        @ closingText opts r j \<and>
      AppBundleCount (Stats (result s)) = int (length (sortedLines env mdfindCmd)) \<and>
      ApplicationsDirCount (Stats (result s)) = int (length (sort names)) \<and>
      UserApplicationsCount (Stats (result s)) = int (length (userApps env)) \<and>
      BrewCaskCount (Stats (result s)) = int (length (sortedLines env casksCmd)) \<and>
      BrewFormulaCount (Stats (result s)) = int (length (sortedLines env formulaeCmd)) \<and>
      (\<forall>c \<in> {mdfindCmd, casksCmd, formulaeCmd}.
         (\<forall>l \<in> set (sortedLines env c).
            l \<noteq> [] \<and> CHR 0x0A \<notin> set l \<and>
            (\<forall>p \<in> set spaceRunes. \<not> prefix p l \<and> \<not> suffix p l)) \<and>
         Split (linesText (sortedLines env c)) = sortedLines env c @ [[]]) \<and>
      (\<forall>ns \<in> {sort names, userApps env}.
         (\<forall>n \<in> set ns. CHR 0x0A \<notin> set n) \<longrightarrow> Split (linesText ns) = ns @ [[]])"
proof (rule runExport_None[OF assms])
  fix r j names paths mid
  assume r: "absPath env (reportPath opts) = Inr r" and j: "absPath env (jsonPath opts) = Inr j"
    and n: "readDir env ''/Applications'' = Inr names"
    and res: "(result s)\<lparr>Warnings := []\<rparr> =
        \<lparr>ReportPath = r, ReportSizeBytes = fileSize env r,
         BrewJSONPath = (if compactMode opts then [] else j),
         BrewJSONSizeBytes = (if compactMode opts then 0 else fileSize env j),
         Compact = compactMode opts,
         Stats = \<lparr>AppBundleCount = int (length (sortedLines env mdfindCmd)),
                  ApplicationsDirCount = int (length (sort names)),
                  UserApplicationsCount = int (length (userApps env)),
                  BrewCaskCount = int (length (sortedLines env casksCmd)),
                  BrewFormulaCount = int (length (sortedLines env formulaeCmd))\<rparr>,
         DurationSeconds = real_of_int (timeEnd env - timeStart env) / 1000000000,
         StartedAt = timeStart env, CompletedAt = timeEnd env, Warnings = []\<rparr>"
  have "Stats (result s) = Stats ((result s)\<lparr>Warnings := []\<rparr>)" by simp
  then have st: "Stats (result s) =
      \<lparr>AppBundleCount = int (length (sortedLines env mdfindCmd)),
                  ApplicationsDirCount = int (length (sort names)),
                  UserApplicationsCount = int (length (userApps env)),
                  BrewCaskCount = int (length (sortedLines env casksCmd)),
                  BrewFormulaCount = int (length (sortedLines env formulaeCmd))\<rparr>"
    by (simp only: res) simp
  have sys: "systemApps env = sort names" using n by (simp add: systemApps_def)
  have cmds: "\<forall>c \<in> {mdfindCmd, casksCmd, formulaeCmd}.
         (\<forall>l \<in> set (sortedLines env c).
            l \<noteq> [] \<and> CHR 0x0A \<notin> set l \<and>
            (\<forall>p \<in> set spaceRunes. \<not> prefix p l \<and> \<not> suffix p l)) \<and>
         Split (linesText (sortedLines env c)) = sortedLines env c @ [[]]"
    using sortedLines_trimmed sortedLines_physical by blast
  have dirs: "\<forall>ns \<in> {sort names, userApps env}.
         (\<forall>n \<in> set ns. CHR 0x0A \<notin> set n) \<longrightarrow> Split (linesText ns) = ns @ [[]]"
    using Split_linesText by blast
  show ?thesis
  proof (rule runExport_layout[OF assms])
    fix r' j' dout
    assume r': "absPath env (reportPath opts) = Inr r'" and j': "absPath env (jsonPath opts) = Inr j'"
      and o: "dout = combined (runCmd env doctorCmd) \<or> dout = [] \<and> (\<exists>n. writeErr env n \<noteq> None)"
      and rep: "report s = inventoryText env opts
              @ (if compactMode opts then [] else diagnosticText env dout j')
              @ closingText opts r' j'"
    from r r' j j' have same: "r' = r" "j' = j" by simp_all
    from o have o': "dout = combined (runCmd env doctorCmd) \<or> dout = []" by blast
    have rep': "report s =
          headerText ''MAC SYSTEM + USER INSTALLED APPLICATIONS (.app bundles)''
        @ linesText (sortedLines env mdfindCmd)
        @ ''\<newline>-- /Applications ---\<newline>''
        @ linesText (sort names)
        @ ''\<newline>-- ~/Applications ---\<newline>''
        @ linesText (userApps env)
        @ headerText ''HOMEBREW CASK APPLICATIONS (GUI)''
        @ linesText (sortedLines env casksCmd)
        @ (if compactMode opts then []
           else ''\<newline>-- Installed paths --\<newline>'' @ linesText (caskroomPaths env))
        @ headerText ''HOMEBREW FORMULAE (CLI tools)''
        @ linesText (sortedLines env formulaeCmd)
        @ (if compactMode opts then []
           else headerText ''BREW ENV & METADATA''
                @ combined (runCmd env configCmd)
                @ dout
                @ headerText ''FULL BREW PACKAGE METADATA (JSON)''
                @ linesText [''Saved JSON -> '' @ j])
        @ closingText opts r j"
      unfolding rep same inventoryText_def diagnosticText_def sys by simp
    show ?thesis
    proof (intro exI conjI)
      show "absPath env (reportPath opts) = Inr r" by (rule r)
      show "absPath env (jsonPath opts) = Inr j" by (rule j)
      show "readDir env ''/Applications'' = Inr names" by (rule n)
      show "dout = combined (runCmd env doctorCmd) \<or> dout = []" by (rule o')
      show "report s =
          headerText ''MAC SYSTEM + USER INSTALLED APPLICATIONS (.app bundles)''
        @ linesText (sortedLines env mdfindCmd)
        @ ''\<newline>-- /Applications ---\<newline>''
        @ linesText (sort names)
        @ ''\<newline>-- ~/Applications ---\<newline>''
        @ linesText (userApps env)
        @ headerText ''HOMEBREW CASK APPLICATIONS (GUI)''
        @ linesText (sortedLines env casksCmd)
        @ (if compactMode opts then []
           else ''\<newline>-- Installed paths --\<newline>'' @ linesText (caskroomPaths env))
        @ headerText ''HOMEBREW FORMULAE (CLI tools)''
        @ linesText (sortedLines env formulaeCmd)
        @ (if compactMode opts then []
           else headerText ''BREW ENV & METADATA''
                @ combined (runCmd env configCmd)
                @ dout
                @ headerText ''FULL BREW PACKAGE METADATA (JSON)''
                @ linesText [''Saved JSON -> '' @ j])
        @ closingText opts r j" by (rule rep')
      show "AppBundleCount (Stats (result s)) = int (length (sortedLines env mdfindCmd))"
        by (simp only: st) simp
      show "ApplicationsDirCount (Stats (result s)) = int (length (sort names))"
        by (simp only: st) simp
      show "UserApplicationsCount (Stats (result s)) = int (length (userApps env))"
        by (simp only: st) simp
      show "BrewCaskCount (Stats (result s)) = int (length (sortedLines env casksCmd))"
        by (simp only: st) simp
      show "BrewFormulaCount (Stats (result s)) = int (length (sortedLines env formulaeCmd))"
        by (simp only: st) simp
      show "\<forall>c \<in> {mdfindCmd, casksCmd, formulaeCmd}.
         (\<forall>l \<in> set (sortedLines env c).
            l \<noteq> [] \<and> CHR 0x0A \<notin> set l \<and>
            (\<forall>p \<in> set spaceRunes. \<not> prefix p l \<and> \<not> suffix p l)) \<and>
         Split (linesText (sortedLines env c)) = sortedLines env c @ [[]]" by (rule cmds)
      show "\<forall>ns \<in> {sort names, userApps env}.
         (\<forall>n \<in> set ns. CHR 0x0A \<notin> set n) \<longrightarrow> Split (linesText ns) = ns @ [[]]" by (rule dirs)
    qed
  qed
qed

lemma sample_userApps: "userApps sampleEnv = []"
  by (simp add: userApps_def sampleEnv_fields)

theorem stats_count_written_entries_witness:
  "runExport sampleEnv fullRun = (None, snd (runExport sampleEnv fullRun)) \<and>
   Stats (result (snd (runExport sampleEnv fullRun))) =
     \<lparr>AppBundleCount = 2, ApplicationsDirCount = 2, UserApplicationsCount = 0,
      BrewCaskCount = 2, BrewFormulaCount = 1\<rparr>"
proof -
  let ?s = "snd (runExport sampleEnv fullRun)"
  have ok: "runExport sampleEnv fullRun = (None, ?s)"
    using sample_full_ok by (simp add: prod_eq_iff)
  from stats_count_written_entries[OF ok]
  have "Stats (result ?s) =
     \<lparr>AppBundleCount = 2, ApplicationsDirCount = 2, UserApplicationsCount = 0,
      BrewCaskCount = 2, BrewFormulaCount = 1\<rparr>"
  proof (elim exE conjE)
    fix r j names doctorOut
    assume n: "readDir sampleEnv ''/Applications'' = Inr names"
      and c: "AppBundleCount (Stats (result ?s)) = int (length (sortedLines sampleEnv mdfindCmd))"
        "ApplicationsDirCount (Stats (result ?s)) = int (length (sort names))"
        "UserApplicationsCount (Stats (result ?s)) = int (length (userApps sampleEnv))"
        "BrewCaskCount (Stats (result ?s)) = int (length (sortedLines sampleEnv casksCmd))"
        "BrewFormulaCount (Stats (result ?s)) = int (length (sortedLines sampleEnv formulaeCmd))"
    from n have names: "names = [''Safari.app'', ''Mail.app'']" by (simp add: sampleEnv_fields)
    from c show ?thesis
      by (cases "Stats (result ?s)")
         (simp add: names sample_userApps sampleEnv_fields sample_lines del: sort_key_simps)
  qed
  with ok show ?thesis by simp
qed

lemma oddNamesEnv_fields:
  "lookPath oddNamesEnv = (\<lambda>n. True)"
  "absPath oddNamesEnv = (\<lambda>p. Inr (''/Users/me/'' @ p))"
  "runCmd oddNamesEnv = sampleRun"
  "readDir oddNamesEnv = (\<lambda>p. if p = ''/Applications'' then Inr [''Safari.app'', ''My\<newline>App.app'']
                                else Inl ''no such file or directory'')"
  by (simp_all add: oddNamesEnv_def sampleEnv_fields)

lemma oddNames_calm: "calm oddNamesEnv"
  by (simp add: calm_def oddNamesEnv_def sampleEnv_fields)

lemma oddNames_ok: "fst (runExport oddNamesEnv compactRun) = None"
  by (rule runExport_ok[where r = "''/Users/me/apps.txt''" and j = "''/Users/me/brew.json''"
        and names = "[''Safari.app'', ''My\<newline>App.app'']"])
     (simp_all add: oddNames_calm oddNamesEnv_fields sample_failures compactRun_def)

lemma oddNames_sorted:
  "sort [''Safari.app'', ''My\<newline>App.app''] = [''My\<newline>App.app'', ''Safari.app'']"
  by code_simp

theorem newline_name_count_differs:
  "fst (runExport oddNamesEnv compactRun) = None \<and>
   ApplicationsDirCount (Stats (result (snd (runExport oddNamesEnv compactRun)))) = 2 \<and>
   prefix (headerText ''MAC SYSTEM + USER INSTALLED APPLICATIONS (.app bundles)''
           @ linesText [''/Applications/Bar.app'', ''/Applications/Foo.app'']
           @ ''\<newline>-- /Applications ---\<newline>''
           @ ''My\<newline>App.app\<newline>Safari.app\<newline>''
           @ ''\<newline>-- ~/Applications ---\<newline>'')
          (report (snd (runExport oddNamesEnv compactRun))) \<and>
   Split ''My\<newline>App.app\<newline>Safari.app\<newline>'' = [''My'', ''App.app'', ''Safari.app'', []]"
proof -
  let ?s = "snd (runExport oddNamesEnv compactRun)"
  have ok: "runExport oddNamesEnv compactRun = (None, ?s)"
    using oddNames_ok by (simp add: prod_eq_iff)
  have sp: "Split ''My\<newline>App.app\<newline>Safari.app\<newline>'' = [''My'', ''App.app'', ''Safari.app'', []]"
    by simp
  have "ApplicationsDirCount (Stats (result ?s)) = 2 \<and>
   prefix (headerText ''MAC SYSTEM + USER INSTALLED APPLICATIONS (.app bundles)''
           @ linesText [''/Applications/Bar.app'', ''/Applications/Foo.app'']
           @ ''\<newline>-- /Applications ---\<newline>''
           @ ''My\<newline>App.app\<newline>Safari.app\<newline>''
           @ ''\<newline>-- ~/Applications ---\<newline>'') (report ?s)"
  proof (rule runExport_None[OF ok])
    fix r j names paths mid
    assume n: "readDir oddNamesEnv ''/Applications'' = Inr names"
      and rep: "report ?s =
          headerText ''MAC SYSTEM + USER INSTALLED APPLICATIONS (.app bundles)''
        @ linesText (sortedLines oddNamesEnv mdfindCmd)
        @ ''\<newline>-- /Applications ---\<newline>''
        @ linesText (sort names)
        @ ''\<newline>-- ~/Applications ---\<newline>''
        @ linesText (userApps oddNamesEnv)
        @ headerText ''HOMEBREW CASK APPLICATIONS (GUI)''
        @ linesText (sortedLines oddNamesEnv casksCmd)
        @ paths
        @ headerText ''HOMEBREW FORMULAE (CLI tools)''
        @ linesText (sortedLines oddNamesEnv formulaeCmd)
        @ mid
        @ closingText compactRun r j"
      and res: "(result ?s)\<lparr>Warnings := []\<rparr> =
        \<lparr>ReportPath = r, ReportSizeBytes = fileSize oddNamesEnv r,
         BrewJSONPath = (if compactMode compactRun then [] else j),
         BrewJSONSizeBytes = (if compactMode compactRun then 0 else fileSize oddNamesEnv j),
         Compact = compactMode compactRun,
         Stats = \<lparr>AppBundleCount = int (length (sortedLines oddNamesEnv mdfindCmd)),
                  ApplicationsDirCount = int (length (sort names)),
                  UserApplicationsCount = int (length (userApps oddNamesEnv)),
                  BrewCaskCount = int (length (sortedLines oddNamesEnv casksCmd)),
                  BrewFormulaCount = int (length (sortedLines oddNamesEnv formulaeCmd))\<rparr>,
         DurationSeconds = real_of_int (timeEnd oddNamesEnv - timeStart oddNamesEnv) / 1000000000,
         StartedAt = timeStart oddNamesEnv, CompletedAt = timeEnd oddNamesEnv, Warnings = []\<rparr>"
    from n have names: "names = [''Safari.app'', ''My\<newline>App.app'']"
      by (simp add: oddNamesEnv_fields)
    have "Stats (result ?s) = Stats ((result ?s)\<lparr>Warnings := []\<rparr>)" by simp
    then have "ApplicationsDirCount (Stats (result ?s)) = int (length (sort names))"
      by (simp only: res) simp
    then have cnt: "ApplicationsDirCount (Stats (result ?s)) = 2" by (simp add: names)
    have sec: "linesText (sort names) = ''My\<newline>App.app\<newline>Safari.app\<newline>''"
      unfolding names oddNames_sorted by (simp add: linesText_def)
    have b: "sortedLines oddNamesEnv mdfindCmd = [''/Applications/Bar.app'', ''/Applications/Foo.app'']"
      by (simp only: oddNamesEnv_fields sample_lines)
    have "report ?s =
          (headerText ''MAC SYSTEM + USER INSTALLED APPLICATIONS (.app bundles)''
        @ linesText [''/Applications/Bar.app'', ''/Applications/Foo.app'']
        @ ''\<newline>-- /Applications ---\<newline>''
        @ ''My\<newline>App.app\<newline>Safari.app\<newline>''
        @ ''\<newline>-- ~/Applications ---\<newline>'')
        @ (linesText (userApps oddNamesEnv)
        @ headerText ''HOMEBREW CASK APPLICATIONS (GUI)''
        @ linesText (sortedLines oddNamesEnv casksCmd)
        @ paths
        @ headerText ''HOMEBREW FORMULAE (CLI tools)''
        @ linesText (sortedLines oddNamesEnv formulaeCmd)
        @ mid
        @ closingText compactRun r j)"
      unfolding rep sec b by (simp only: append_assoc)
    then have "prefix (headerText ''MAC SYSTEM + USER INSTALLED APPLICATIONS (.app bundles)''
        @ linesText [''/Applications/Bar.app'', ''/Applications/Foo.app'']
        @ ''\<newline>-- /Applications ---\<newline>''
        @ ''My\<newline>App.app\<newline>Safari.app\<newline>''
        @ ''\<newline>-- ~/Applications ---\<newline>'') (report ?s)"
      by (rule prefixI)
    with cnt show ?thesis by (rule conjI)
  qed
  with oddNames_ok sp show ?thesis by (intro conjI) simp_all
qed

section \<open>Sorted categories\<close>












section \<open>Compact mode\<close>

text \<open>
  C10. In compact mode the result has no warning, whether or not the run succeeds:
  neither \<open>brew config\<close> nor \<open>brew doctor\<close> is executed, and a successful run has executed
  exactly the three inventory commands.
\<close>

theorem compact_run_has_no_warnings:
  assumes "compactMode opts"
  shows "Warnings (result (snd (runExport env opts))) = [] \<and>
         configCmd \<notin> set (executed (snd (runExport env opts))) \<and>
         doctorCmd \<notin> set (executed (snd (runExport env opts))) \<and>
         (fst (runExport env opts) = None \<longrightarrow>
            executed (snd (runExport env opts)) = [mdfindCmd, casksCmd, formulaeCmd])"
proof -
  obtain e s where r: "runExport env opts = (e, s)" by (cases "runExport env opts")
  from compact_invariant[OF assms r] have w: "Warnings (result s) = []"
    and ex: "set (executed s) \<subseteq> {mdfindCmd, casksCmd, formulaeCmd}" by simp_all
  have c: "configCmd \<notin> set (executed s)" by (rule not_in_subset[OF ex]) simp
  have d: "doctorCmd \<notin> set (executed s)" by (rule not_in_subset[OF ex]) simp
  have "executed s = [mdfindCmd, casksCmd, formulaeCmd]" if "e = None"
  proof (rule runExport_None[OF r[unfolded that]])
    fix r j names paths mid
    assume "compactMode opts \<longrightarrow> mid = [] \<and> Warnings (result s) = [] \<and>
           executed s = [mdfindCmd, casksCmd, formulaeCmd]"
    with assms show ?thesis by simp
  qed
  with w c d r show ?thesis by simp
qed

theorem compact_run_has_no_warnings_witness:
  "compactMode compactRun \<and> fst (runExport sampleEnv compactRun) = None \<and>
   Warnings (result (snd (runExport sampleEnv compactRun))) = [] \<and>
   executed (snd (runExport sampleEnv compactRun)) = [mdfindCmd, casksCmd, formulaeCmd]"
proof -
  have c: "compactMode compactRun" by (simp add: compactRun_def)
  from compact_run_has_no_warnings[OF c, of sampleEnv] sample_compact_ok c show ?thesis by simp
qed

text \<open>
  C5. In compact mode the metadata path of the result is empty and the metadata size is
  zero, whether or not the run succeeds, and \<open>brew info\<close> is not executed; the report of a
  successful run ends with the closing banner whose metadata line says that the
  metadata was skipped.
\<close>

theorem compact_skips_metadata:
  assumes "compactMode opts"
  shows "BrewJSONPath (result (snd (runExport env opts))) = [] \<and>
         BrewJSONSizeBytes (result (snd (runExport env opts))) = 0 \<and>
         infoCmd \<notin> set (executed (snd (runExport env opts))) \<and>
         (fst (runExport env opts) = None \<longrightarrow>
            Compact (result (snd (runExport env opts))) \<and>
            (\<exists>before. report (snd (runExport env opts)) =
               before @ linesText ['''', divider, ''Report complete!'',
                  ''Text report: '' @ ReportPath (result (snd (runExport env opts))),
                  ''JSON metadata: skipped (compact mode)'', divider]))"
proof -
  obtain e s where r: "runExport env opts = (e, s)" by (cases "runExport env opts")
  from compact_invariant[OF assms r] have p: "BrewJSONPath (result s) = []"
    and z: "BrewJSONSizeBytes (result s) = 0"
    and ex: "set (executed s) \<subseteq> {mdfindCmd, casksCmd, formulaeCmd}" by simp_all
  have "infoCmd \<notin> {mdfindCmd, casksCmd, formulaeCmd}" by simp
  then have i: "infoCmd \<notin> set (executed s)" by (rule not_in_subset[OF ex])
  have "Compact (result s) \<and>
            (\<exists>before. report s =
               before @ linesText ['''', divider, ''Report complete!'',
                  ''Text report: '' @ ReportPath (result s),
                  ''JSON metadata: skipped (compact mode)'', divider])" if "e = None"
  proof (rule runExport_None[OF r[unfolded that]])
    fix r j names paths mid
    assume rep: "report s =
          headerText ''MAC SYSTEM + USER INSTALLED APPLICATIONS (.app bundles)''
        @ linesText (sortedLines env mdfindCmd)
        @ ''\<newline>-- /Applications ---\<newline>''
        @ linesText (sort names)
        @ ''\<newline>-- ~/Applications ---\<newline>''
        @ linesText (userApps env)
        @ headerText ''HOMEBREW CASK APPLICATIONS (GUI)''
        @ linesText (sortedLines env casksCmd)
        @ paths
        @ headerText ''HOMEBREW FORMULAE (CLI tools)''
        @ linesText (sortedLines env formulaeCmd)
        @ mid
        @ closingText opts r j"
    and res: "(result s)\<lparr>Warnings := []\<rparr> =
        \<lparr>ReportPath = r, ReportSizeBytes = fileSize env r,
         BrewJSONPath = (if compactMode opts then [] else j),
         BrewJSONSizeBytes = (if compactMode opts then 0 else fileSize env j),
         Compact = compactMode opts,
         Stats = \<lparr>AppBundleCount = int (length (sortedLines env mdfindCmd)),
                  ApplicationsDirCount = int (length (sort names)),
                  UserApplicationsCount = int (length (userApps env)),
                  BrewCaskCount = int (length (sortedLines env casksCmd)),
                  BrewFormulaCount = int (length (sortedLines env formulaeCmd))\<rparr>,
         DurationSeconds = real_of_int (timeEnd env - timeStart env) / 1000000000,
         StartedAt = timeStart env, CompletedAt = timeEnd env, Warnings = []\<rparr>"
    have "Compact (result s) = Compact ((result s)\<lparr>Warnings := []\<rparr>)"
      "ReportPath (result s) = ReportPath ((result s)\<lparr>Warnings := []\<rparr>)" by simp_all
    then have c: "Compact (result s)" and rp: "ReportPath (result s) = r"
      using assms by (simp_all only: res) simp_all
    have ct: "closingText opts r j = linesText ['''', divider, ''Report complete!'',
                  ''Text report: '' @ ReportPath (result s),
                  ''JSON metadata: skipped (compact mode)'', divider]"
      unfolding closingText_def rp using assms by simp
    have "\<exists>before. report s = before @ linesText ['''', divider, ''Report complete!'',
                  ''Text report: '' @ ReportPath (result s),
                  ''JSON metadata: skipped (compact mode)'', divider]"
      by (rule tail_exists[OF rep[unfolded ct]])
    with c show ?thesis by simp
  qed
  with p z i r show ?thesis by simp
qed

theorem compact_skips_metadata_witness:
  "compactMode compactRun \<and> fst (runExport sampleEnv compactRun) = None \<and>
   BrewJSONPath (result (snd (runExport sampleEnv compactRun))) = [] \<and>
   BrewJSONSizeBytes (result (snd (runExport sampleEnv compactRun))) = 0 \<and>
   Compact (result (snd (runExport sampleEnv compactRun)))"
proof -
  have c: "compactMode compactRun" by (simp add: compactRun_def)
  from compact_skips_metadata[OF c, of sampleEnv] sample_compact_ok c show ?thesis by simp
qed

section \<open>The Caskroom directories\<close>

text \<open>
  C4. Let the Caskroom root be the first line of \<open>brew --prefix\<close> joined with
  \<open>Caskroom\<close>, in a file system whose entry names hold no separator. The list
  \<open>caskroomDirectories\<close> returns is sorted and holds only directories of the tree, each
  at most two separators below the root. The walk hands no path deeper than three
  separators to its function: a directory at depth three is skipped, so nothing below
  it is read. When the root does not exist the list is empty, there is no error and
  nothing is walked.
\<close>

theorem caskroom_walk_bounded:
  assumes "commandLines env ''brew'' [''--prefix''] s = (Inr (p # ps), s1)"
    and "caskroom = joinPath env p ''Caskroom''"
    and "\<forall>tree. lstatTree env caskroom = Inr tree \<longrightarrow> plainNames tree"
  shows "\<exists>ds err w.
      caskroomDirectories env s = ((ds, err), s1\<lparr>walked := walked s1 @ w\<rparr>) \<and>
      sorted ds \<and>
      (\<forall>d \<in> set ds. relDepth caskroom d \<le> 2 \<and> d \<in> set w \<and>
         (\<exists>tree. lstatTree env caskroom = Inr tree \<and> d \<in> set (dirPaths caskroom tree))) \<and>
      (\<forall>v \<in> set w. relDepth caskroom v \<le> 3) \<and>
      (statPath env caskroom = StatNotExist \<longrightarrow> ds = [] \<and> err = None \<and> w = [])"
proof (cases "statPath env caskroom")
  case StatOk
  obtain r w where wd: "WalkDir env (collectDir caskroom) caskroom \<lparr>visited = [], dirs = []\<rparr> = (r, w)"
    by (cases "WalkDir env (collectDir caskroom) caskroom \<lparr>visited = [], dirs = []\<rparr>")
  note b = WalkDir_bounded[OF assms(3) wd]
  show ?thesis
  proof (cases "\<exists>e. r = WalkFail e")
    case True
    then obtain e where "r = WalkFail e" by blast
    with assms(1,2) StatOk wd
    have "caskroomDirectories env s = (([], Some (OSError e)), s1\<lparr>walked := walked s1 @ visited w\<rparr>)"
      by (simp add: caskroomDirectories_def)
    with b StatOk show ?thesis by auto
  next
    case False
    with assms(1,2) StatOk wd
    have "caskroomDirectories env s = ((sort (dirs w), None), s1\<lparr>walked := walked s1 @ visited w\<rparr>)"
      by (cases r) (simp_all add: caskroomDirectories_def)
    with b StatOk show ?thesis
      by (intro exI[of _ "sort (dirs w)"] exI[of _ None] exI[of _ "visited w"]) simp
  qed
next
  case StatNotExist
  with assms(1,2) have "caskroomDirectories env s = (([], None), s1\<lparr>walked := walked s1 @ []\<rparr>)"
    by (simp add: caskroomDirectories_def)
  then show ?thesis by (intro exI[of _ "[]"] exI[of _ None]) simp
next
  case (StatFail e)
  with assms(1,2) have "caskroomDirectories env s = (([], Some (OSError e)), s1\<lparr>walked := walked s1 @ []\<rparr>)"
    by (simp add: caskroomDirectories_def)
  with StatFail show ?thesis by (intro exI[of _ "[]"] exI[of _ "Some (OSError e)"]) simp
qed

theorem caskroom_walk_bounded_witness:
  "commandLines sampleEnv ''brew'' [''--prefix''] initial =
     (Inr [''/opt/homebrew''], initial\<lparr>executed := executed initial @ [prefixCmd]\<rparr>) \<and>
   plainNames sampleTree \<and>
   fst (caskroomDirectories sampleEnv initial) =
     ([''/opt/homebrew/Caskroom'', ''/opt/homebrew/Caskroom/firefox'',
       ''/opt/homebrew/Caskroom/firefox/120.0''], None) \<and>
   ''/opt/homebrew/Caskroom/firefox/120.0/Firefox.app/Contents''
     \<notin> set (walked (snd (caskroomDirectories sampleEnv initial))) \<and>
   relDepth ''/opt/homebrew/Caskroom'' ''/opt/homebrew/Caskroom/firefox/120.0/Firefox.app/Contents'' = 4 \<and>
   fst (caskroomDirectories (sampleEnv\<lparr>statPath := (\<lambda>p. StatNotExist)\<rparr>) initial) = ([], None)"
proof -
  let ?c = "''/opt/homebrew/Caskroom''"
  let ?deep = "''/opt/homebrew/Caskroom/firefox/120.0/Firefox.app/Contents''"
  let ?env' = "sampleEnv\<lparr>statPath := (\<lambda>p. StatNotExist)\<rparr>"
  have j: "?c = joinPath sampleEnv ''/opt/homebrew'' ''Caskroom''" by (simp add: sampleEnv_fields)
  have pl: "\<forall>tree. lstatTree sampleEnv ?c = Inr tree \<longrightarrow> plainNames tree"
    by (simp add: sampleEnv_fields sample_plain)
  have d4: "relDepth ?c ?deep = 4" by code_simp
  from caskroom_walk_bounded[OF sample_prefix j pl]
  obtain ds err w where c: "caskroomDirectories sampleEnv initial =
        ((ds, err), initial\<lparr>executed := executed initial @ [prefixCmd],
                           walked := walked (initial\<lparr>executed := executed initial @ [prefixCmd]\<rparr>) @ w\<rparr>)"
    and v: "\<forall>v \<in> set w. relDepth ?c v \<le> 3" by auto
  have "?deep \<notin> set w"
  proof
    assume "?deep \<in> set w"
    with v have "relDepth ?c ?deep \<le> 3" by (rule bspec)
    with d4 show False by simp
  qed
  with c have nv: "?deep \<notin> set (walked (snd (caskroomDirectories sampleEnv initial)))"
    by (simp add: initial_def)
  have p': "commandLines ?env' ''brew'' [''--prefix''] initial =
     (Inr [''/opt/homebrew''], initial\<lparr>executed := executed initial @ [prefixCmd]\<rparr>)"
    by (simp add: commandLines_def sampleEnv_fields sample_failures sample_lines)
  have j': "?c = joinPath ?env' ''/opt/homebrew'' ''Caskroom''" by (simp add: sampleEnv_fields)
  have pl': "\<forall>tree. lstatTree ?env' ?c = Inr tree \<longrightarrow> plainNames tree"
    by (simp add: sampleEnv_fields sample_plain)
  from caskroom_walk_bounded[OF p' j' pl']
  have ne: "fst (caskroomDirectories ?env' initial) = ([], None)" by auto
  from sample_prefix sample_plain sample_caskroom[of initial] nv d4 ne show ?thesis by simp
qed

section \<open>The diagnostic commands\<close>

lemma runSteps_append_Some:
  "runSteps fs s = (Some e, s') \<Longrightarrow> runSteps (fs @ gs) s = (Some e, s')"
  by (simp add: runSteps_append)

lemma runSteps_append_None:
  "runSteps fs s = (None, s') \<Longrightarrow> runSteps (fs @ gs) s = runSteps gs s'"
  by (simp add: runSteps_append)

lemma runSteps_Cons_Some: "f s = (Some e, s') \<Longrightarrow> runSteps (f # fs) s = (Some e, s')"
  by simp

lemma runSteps_Cons_None: "f s = (None, s') \<Longrightarrow> runSteps (f # fs) s = runSteps fs s'"
  by simp

lemma diagnosticSteps_full:
  "\<not> compactMode opts \<Longrightarrow>
   setupSteps env opts @ inventorySteps env opts @ diagnosticSteps env opts @ closingSteps env opts =
   (setupSteps env opts @ inventorySteps env opts @ [sectionHeader env ''BREW ENV & METADATA''])
   @ diagnostic env False ''brew'' [''config'']
   # diagnostic env True ''brew'' [''doctor'']
   # ([sectionHeader env ''FULL BREW PACKAGE METADATA (JSON)'', saveBrewJSON env,
       printLine env (\<lambda>s. ''Saved JSON -> '' @ absJSON s)] @ closingSteps env opts)"
  by (simp add: diagnosticSteps_def)

text \<open>Before the diagnostic commands: no warning, and none of the three commands executed.\<close>

lemma before_diagnostics:
  assumes "runSteps (setupSteps env opts @ inventorySteps env opts
                     @ [sectionHeader env ''BREW ENV & METADATA'']) initial = (e, t)"
  shows "Warnings (result t) = [] \<and> configCmd \<notin> set (executed t) \<and>
         doctorCmd \<notin> set (executed t) \<and> infoCmd \<notin> set (executed t)"
proof -
  let ?P = "\<lambda>t. Warnings (result t) = [] \<and>
               set (executed t) \<subseteq> {mdfindCmd, casksCmd, formulaeCmd, prefixCmd}"
  let ?fs = "setupSteps env opts @ inventorySteps env opts @ [sectionHeader env ''BREW ENV & METADATA'']"
  have step: "?P t'" if "f \<in> set ?fs" and "?P t" and "f t = (e1, t')" for f t e1 t'
  proof -
    from that(1) consider "f \<in> set (setupSteps env opts)"
      | "f \<in> set (inventorySteps env opts)" | "f = sectionHeader env ''BREW ENV & METADATA''"
      by auto
    then show ?thesis
    proof cases
      case 1
      from setup_frame[OF 1 that(3)] that(2) show ?thesis by simp
    next
      case 2
      from inventory_quiet[OF 2 that(3)]
      have "quiet {mdfindCmd, casksCmd, formulaeCmd, prefixCmd} t t'"
        by (rule quiet_mono) simp
      with that(2) show ?thesis by (auto simp: quiet_def)
    next
      case 3
      with that(3) sectionHeader_quiet have "quiet {} t t'" by blast
      with that(2) show ?thesis by (auto simp: quiet_def)
    qed
  qed
  have "?P initial" by (simp add: initial_def zeroResult_def)
  from runSteps_invariant[where P = ?P, OF step this assms]
  have w: "Warnings (result t) = []"
    and ex: "set (executed t) \<subseteq> {mdfindCmd, casksCmd, formulaeCmd, prefixCmd}" by simp_all
  have "configCmd \<notin> set (executed t)" by (rule not_in_subset[OF ex]) simp
  moreover have "doctorCmd \<notin> set (executed t)" by (rule not_in_subset[OF ex]) simp
  moreover have "infoCmd \<notin> set (executed t)" by (rule not_in_subset[OF ex]) simp
  ultimately show ?thesis using w by simp
qed

lemma TrimSpace_Nil: "TrimSpace [] = []"
proof -
  have "leadingSpace [] = None" by (simp add: leadingSpace_def spaceRunes_def)
  then have l: "trimLeft [] = []" by (subst trimLeft.simps) simp
  have "trailingSpace [] = None" by (simp add: trailingSpace_def spaceRunes_def)
  then have "trimRight [] = []" by (subst trimRight.simps) simp
  with l show ?thesis by (simp add: TrimSpace_def)
qed

text \<open>
  What \<open>appendCommandOutput\<close> keeps of the output of a command for its message: all of
  it, or nothing when the write to the report failed.
\<close>

lemma kept_output:
  "(let r = runCmd env argv;
        ws = (if combined r = [] then (None, s1) else writeBytes env (combined r) s1)
    in if fst ws = None then combined r else []) =
   (if writeErr env (length (report s1)) = None then combined (runCmd env argv) else [])"
  by (simp add: Let_def writeBytes_def split: option.splits)

text \<open>The \<open>brew config\<close> step: any error of the command is returned, never kept as a warning.\<close>

lemma config_step:
  assumes "diagnostic env False ''brew'' [''config''] t = (e, t')"
  shows "executed t' = executed t @ [configCmd] \<and> result t' = result t \<and>
         (\<forall>x. failure (runCmd env configCmd) = Some x \<longrightarrow>
            (\<exists>hint. e = Some (CLIError (''brew config failed: '' @ x) hint []) \<and>
               (hint = TrimSpace (combined (runCmd env configCmd)) \<or>
                hint = ''Re-run with verbose logging or manually execute `brew config` for details.'')))"
proof -
  from diagnostic_state[OF assms] have f: "executed t' = executed t @ [configCmd]" "result t' = result t"
    by auto
  have "\<exists>hint. e = Some (CLIError (''brew config failed: '' @ x) hint []) \<and>
               (hint = TrimSpace (combined (runCmd env configCmd)) \<or>
                hint = ''Re-run with verbose logging or manually execute `brew config` for details.'')"
    if x: "failure (runCmd env configCmd) = Some x" for x
  proof -
    let ?s1 = "t\<lparr>executed := executed t @ [configCmd]\<rparr>"
    define out where "out = (if writeErr env (length (report ?s1)) = None
                             then combined (runCmd env configCmd) else [])"
    have "fst (fst (appendCommandOutput env False ''brew'' [''config''] t)) = [] \<and>
          snd (fst (appendCommandOutput env False ''brew'' [''config''] t)) =
            wrapCommandErr ''brew config'' (Some x) (TrimSpace out)"
      using x kept_output[of env configCmd ?s1]
      by (simp add: appendCommandOutput_def Let_def out_def)
    with assms have e: "e = wrapCommandErr ''brew config'' (Some x) (TrimSpace out)"
      by (cases "appendCommandOutput env False ''brew'' [''config''] t")
         (auto simp: diagnostic_def wrapCommandErr_def split: option.splits)
    have "TrimSpace out = TrimSpace (combined (runCmd env configCmd)) \<or> TrimSpace out = []"
      by (simp add: out_def TrimSpace_Nil)
    with e show ?thesis by (auto simp: wrapCommandErr_def)
  qed
  with f show ?thesis by blast
qed

text \<open>The \<open>brew doctor\<close> step never returns an error; a failure of the command is one warning.\<close>

lemma doctor_step:
  assumes "diagnostic env True ''brew'' [''doctor''] t = (e, t')"
  shows "e = None \<and> executed t' = executed t @ [doctorCmd] \<and>
         (\<forall>x. failure (runCmd env doctorCmd) = Some x \<longrightarrow>
            (\<exists>out. out = (if writeErr env (length (report t)) = None
                           then combined (runCmd env doctorCmd) else []) \<and>
                   Warnings (result t') = Warnings (result t) @
                     [''brew doctor failed: '' @ x @
                        (if TrimSpace out = [] then [] else '': '' @ TrimSpace out)]))"
proof -
  from diagnostic_state[OF assms] have f: "executed t' = executed t @ [doctorCmd]" by auto
  have e: "e = None" using diagnostic_warn_ok[of env "''brew''" "[''doctor'']" t] assms by simp
  have "Warnings (result t') = Warnings (result t) @
           [''brew doctor failed: '' @ x @
              (if TrimSpace (if writeErr env (length (report t)) = None
                           then combined (runCmd env doctorCmd) else []) = [] then []
               else '': '' @ TrimSpace (if writeErr env (length (report t)) = None
                           then combined (runCmd env doctorCmd) else []))]"
    if x: "failure (runCmd env doctorCmd) = Some x" for x
  proof -
    let ?r = "runCmd env doctorCmd"
    let ?s1 = "t\<lparr>executed := executed t @ [doctorCmd]\<rparr>"
    let ?ws = "if combined ?r = [] then (None, ?s1) else writeBytes env (combined ?r) ?s1"
    define out where "out = (if writeErr env (length (report t)) = None
                             then combined (runCmd env doctorCmd) else [])"
    let ?w = "''brew doctor failed: '' @ x @ (if TrimSpace out = [] then [] else '': '' @ TrimSpace out)"
    have a: "appendCommandOutput env True ''brew'' [''doctor''] t = ((?w, None), snd ?ws)"
      using x kept_output[of env doctorCmd ?s1]
      by (simp add: appendCommandOutput_def Let_def out_def)
    have "?w \<noteq> []" by simp
    with a assms have "t' = (snd ?ws)\<lparr>result := (result (snd ?ws))\<lparr>Warnings := Warnings (result (snd ?ws)) @ [?w]\<rparr>\<rparr>"
      by (simp add: diagnostic_def)
    moreover have "result (snd ?ws) = result t"
      by (simp add: writeBytes_def split: option.splits)
    ultimately have "Warnings (result t') = Warnings (result t) @ [?w]" by simp
    then show ?thesis unfolding out_def .
  qed
  with e f show ?thesis by blast
qed

lemma after_doctor:
  assumes "runSteps ([sectionHeader env title, saveBrewJSON env, printLine env l]
                     @ closingSteps env opts) t = (e, t')"
  shows "Warnings (result t') = Warnings (result t) \<and> prefix (executed t) (executed t')"
proof -
  let ?P = "\<lambda>u. Warnings (result u) = Warnings (result t) \<and> prefix (executed t) (executed u)"
  let ?fs = "[sectionHeader env title, saveBrewJSON env, printLine env l] @ closingSteps env opts"
  have q: "?P u'" if "quiet A u u'" and "?P u" for A u u'
    using that by (auto simp: quiet_def)
  have step: "?P u'" if "f \<in> set ?fs" and "?P u" and "f u = (e1, u')" for f u e1 u'
  proof -
    from that(1) consider "f = sectionHeader env title" | "f = saveBrewJSON env"
      | "f = printLine env l" | "f \<in> set (closingSteps env opts)" by auto
    then show ?thesis
    proof cases
      case 1
      with that(3) sectionHeader_quiet have "quiet {} u u'" by blast
      then show ?thesis using that(2) by (rule q)
    next
      case 2
      with that(3) saveBrewJSON_quiet have "quiet {infoCmd} u u'" by blast
      then show ?thesis using that(2) by (rule q)
    next
      case 3
      with that(3) printLine_quiet have "quiet {} u u'" by blast
      then show ?thesis using that(2) by (rule q)
    next
      case 4
      from closing_frame[OF 4 that(3)] that(2) show ?thesis by simp
    qed
  qed
  from runSteps_invariant[where P = ?P, OF step _ assms] show ?thesis by simp
qed

lemma after_doctor_ok:
  assumes "calm env" and "failure (runCmd env infoCmd) = None"
  shows "fst (runSteps ([sectionHeader env title, saveBrewJSON env, printLine env l]
                        @ closingSteps env opts) t) = None"
proof (rule runSteps_all_ok)
  fix f u
  assume "f \<in> set ([sectionHeader env title, saveBrewJSON env, printLine env l]
                   @ closingSteps env opts)"
  then consider "f = sectionHeader env title" | "f = saveBrewJSON env"
    | "f = printLine env l" | "f \<in> set (closingSteps env opts)" by auto
  then show "fst (f u) = None"
  proof cases
    case 1
    with assms(1) show ?thesis by (simp add: sectionHeader_ok)
  next
    case 2
    with assms show ?thesis by (simp add: saveBrewJSON_ok)
  next
    case 3
    with assms(1) show ?thesis by (simp add: printLine_ok)
  next
    case 4
    with assms(1) show ?thesis by (rule closing_ok)
  qed
qed

section \<open>The inventory commands\<close>











section \<open>A failure of brew config\<close>










section \<open>A failure of brew doctor\<close>

lemma full_run_executes_doctor:
  assumes "runExport env opts = (None, s)" and "\<not> compactMode opts"
  shows "doctorCmd \<in> set (executed s)"
proof -
  let ?pre = "setupSteps env opts @ inventorySteps env opts @ [sectionHeader env ''BREW ENV & METADATA'']"
  let ?post = "[sectionHeader env ''FULL BREW PACKAGE METADATA (JSON)'', saveBrewJSON env,
         printLine env (\<lambda>s. ''Saved JSON -> '' @ absJSON s)] @ closingSteps env opts"
  from assms(1)
  have "runSteps (?pre @ diagnostic env False ''brew'' [''config'']
                # diagnostic env True ''brew'' [''doctor''] # ?post) initial = (None, s)"
    unfolding runExport_def diagnosticSteps_full[OF assms(2)] .
  then obtain s1 where "runSteps (diagnostic env False ''brew'' [''config'']
                # diagnostic env True ''brew'' [''doctor''] # ?post) s1 = (None, s)"
    by (rule runSteps_appendE)
  then obtain s2 where "runSteps (diagnostic env True ''brew'' [''doctor''] # ?post) s2 = (None, s)"
    by (rule runSteps_ConsE)
  then obtain s3 where d: "diagnostic env True ''brew'' [''doctor''] s2 = (None, s3)"
    and p: "runSteps ?post s3 = (None, s)"
    by (rule runSteps_ConsE)
  from doctor_step[OF d] have "doctorCmd \<in> set (executed s3)" by simp
  moreover from after_doctor[OF p] have "set (executed s3) \<subseteq> set (executed s)"
    using set_mono_prefix by blast
  ultimately show ?thesis by blast
qed

text \<open>
  C6. In every run that executes \<open>brew doctor\<close> and in which the command fails, the steps
  before it have succeeded and recorded no warning; the \<open>brew doctor\<close> step returns no
  error and leaves exactly one warning, \<open>brew doctor failed: \<close> followed by the error and,
  when there is any, the trimmed output of the command; the run goes on with the steps
  after it, which add no warning, and its outcome is theirs: when no write fails and
  \<open>brew info\<close> succeeds, the run succeeds.
\<close>

theorem doctor_failure_is_warning:
  assumes "runExport env opts = (err, s)" and "doctorCmd \<in> set (executed s)"
    and "failure (runCmd env doctorCmd) = Some x"
  shows "\<exists>s1 s2 out.
      runSteps (setupSteps env opts @ inventorySteps env opts
                @ [sectionHeader env ''BREW ENV & METADATA'',
                   diagnostic env False ''brew'' [''config'']]) initial = (None, s1) \<and>
      diagnostic env True ''brew'' [''doctor''] s1 = (None, s2) \<and>
      runSteps ([sectionHeader env ''FULL BREW PACKAGE METADATA (JSON)'', saveBrewJSON env,
                 printLine env (\<lambda>s. ''Saved JSON -> '' @ absJSON s)]
                @ closingSteps env opts) s2 = (err, s) \<and>
      out = (if writeErr env (length (report s1)) = None
             then combined (runCmd env doctorCmd) else []) \<and>
      Warnings (result s1) = [] \<and>
      Warnings (result s2) =
        [''brew doctor failed: '' @ x @ (if TrimSpace out = [] then [] else '': '' @ TrimSpace out)] \<and>
      Warnings (result s) = Warnings (result s2) \<and>
      (calm env \<and> failure (runCmd env infoCmd) = None \<longrightarrow> err = None)"
proof (cases "compactMode opts")
  case True
  from compact_invariant[OF True assms(1)]
  have ex: "set (executed s) \<subseteq> {mdfindCmd, casksCmd, formulaeCmd}" by simp
  have "doctorCmd \<notin> set (executed s)" by (rule not_in_subset[OF ex]) simp
  with assms(2) show ?thesis by simp
next
  case False
  let ?pre = "setupSteps env opts @ inventorySteps env opts @ [sectionHeader env ''BREW ENV & METADATA'']"
  let ?post = "[sectionHeader env ''FULL BREW PACKAGE METADATA (JSON)'', saveBrewJSON env,
         printLine env (\<lambda>s. ''Saved JSON -> '' @ absJSON s)] @ closingSteps env opts"
  from assms(1)
  have run: "runSteps (?pre @ diagnostic env False ''brew'' [''config'']
                # diagnostic env True ''brew'' [''doctor''] # ?post) initial = (err, s)"
    unfolding runExport_def diagnosticSteps_full[OF False] .
  obtain e1 s1 where pre: "runSteps ?pre initial = (e1, s1)" by (cases "runSteps ?pre initial")
  note b = before_diagnostics[OF pre]
  show ?thesis
  proof (cases e1)
    case (Some a)
    from trans[OF run[symmetric] runSteps_append_Some[OF pre[unfolded Some]]]
    have "s = s1" by simp
    with b assms(2) show ?thesis by simp
  next
    case None
    note r1 = trans[OF run[symmetric] runSteps_append_None[OF pre[unfolded None]]]
    obtain e2 s2 where c: "diagnostic env False ''brew'' [''config''] s1 = (e2, s2)"
      by (cases "diagnostic env False ''brew'' [''config''] s1")
    from config_step[OF c] have ex2: "executed s2 = executed s1 @ [configCmd]"
      and rs2: "result s2 = result s1" by simp_all
    from ex2 b have nd: "doctorCmd \<notin> set (executed s2)" by simp
    show ?thesis
    proof (cases e2)
      case (Some a)
      from trans[OF r1 runSteps_Cons_Some[where f = "diagnostic env False ''brew'' [''config'']" and s = s1, OF c[unfolded Some]]] have "s = s2" by simp
      with nd assms(2) show ?thesis by simp
    next
      case None2: None
      define out where "out = (if writeErr env (length (report s2)) = None
             then combined (runCmd env doctorCmd) else [])"
      obtain e3 s3 where d: "diagnostic env True ''brew'' [''doctor''] s2 = (e3, s3)"
        by (cases "diagnostic env True ''brew'' [''doctor''] s2")
      from doctor_step[OF d] have e3: "e3 = None"
        and "\<forall>x. failure (runCmd env doctorCmd) = Some x \<longrightarrow>
            (\<exists>out. out = (if writeErr env (length (report s2)) = None
                           then combined (runCmd env doctorCmd) else []) \<and>
                   Warnings (result s3) = Warnings (result s2) @
                     [''brew doctor failed: '' @ x @
                        (if TrimSpace out = [] then [] else '': '' @ TrimSpace out)])" by simp_all
      with assms(3) have "\<exists>out. out = (if writeErr env (length (report s2)) = None
                           then combined (runCmd env doctorCmd) else []) \<and>
                   Warnings (result s3) = Warnings (result s2) @
                     [''brew doctor failed: '' @ x @
                        (if TrimSpace out = [] then [] else '': '' @ TrimSpace out)]"
        by (elim allE[of _ x] impE) assumption+
      then have w: "Warnings (result s3) = Warnings (result s2) @
                     [''brew doctor failed: '' @ x @
                        (if TrimSpace out = [] then [] else '': '' @ TrimSpace out)]"
        unfolding out_def by (elim exE conjE) simp
      from rs2 b have w2: "Warnings (result s2) = []" by simp
      from trans[OF r1 trans[OF runSteps_Cons_None[where f = "diagnostic env False ''brew'' [''config'']" and s = s1, OF c[unfolded None2]]
            runSteps_Cons_None[where f = "diagnostic env True ''brew'' [''doctor'']" and s = s2, OF d[unfolded e3]]]]
      have post: "runSteps ?post s3 = (err, s)" by (rule sym)
      have upto: "runSteps (setupSteps env opts @ inventorySteps env opts
                @ [sectionHeader env ''BREW ENV & METADATA'',
                   diagnostic env False ''brew'' [''config'']]) initial = (None, s2)"
      proof -
        have "setupSteps env opts @ inventorySteps env opts
                @ [sectionHeader env ''BREW ENV & METADATA'',
                   diagnostic env False ''brew'' [''config'']] =
              ?pre @ [diagnostic env False ''brew'' [''config'']]" by simp
        moreover have "runSteps (?pre @ [diagnostic env False ''brew'' [''config'']]) initial = (None, s2)"
          using runSteps_append_None[OF pre[unfolded None], of "[diagnostic env False ''brew'' [''config'']]"]
            c None2 by simp
        ultimately show ?thesis by (rule ssubst)
      qed
      have good: "calm env \<and> failure (runCmd env infoCmd) = None \<longrightarrow> err = None"
      proof
        assume "calm env \<and> failure (runCmd env infoCmd) = None"
        then have "fst (runSteps ?post s3) = None" using after_doctor_ok by blast
        with post show "err = None" by simp
      qed
      show ?thesis
      proof (intro exI conjI)
        show "runSteps (setupSteps env opts @ inventorySteps env opts
                @ [sectionHeader env ''BREW ENV & METADATA'',
                   diagnostic env False ''brew'' [''config'']]) initial = (None, s2)" by (rule upto)
        show "diagnostic env True ''brew'' [''doctor''] s2 = (None, s3)" using d e3 by simp
        show "runSteps ?post s3 = (err, s)" by (rule post)
        show "out = (if writeErr env (length (report s2)) = None
             then combined (runCmd env doctorCmd) else [])" by (rule out_def)
        show "Warnings (result s2) = []" by (rule w2)
        show "Warnings (result s3) =
          [''brew doctor failed: '' @ x @ (if TrimSpace out = [] then [] else '': '' @ TrimSpace out)]"
          using w w2 by simp
        show "Warnings (result s) = Warnings (result s3)" using after_doctor[OF post] by simp
        show "calm env \<and> failure (runCmd env infoCmd) = None \<longrightarrow> err = None" by (rule good)
      qed
    qed
  qed
qed

lemma sample_trim: "TrimSpace ''Warning: outdated\<newline>'' = ''Warning: outdated''"
  by code_simp

theorem doctor_failure_is_warning_witness:
  "doctorCmd \<in> set (executed (snd (runExport sampleEnv fullRun))) \<and>
   failure (runCmd sampleEnv doctorCmd) = Some ''exit status 1'' \<and>
   fst (runExport sampleEnv fullRun) = None \<and>
   Warnings (result (snd (runExport sampleEnv fullRun))) =
     [''brew doctor failed: exit status 1: Warning: outdated'']"
proof -
  let ?s = "snd (runExport sampleEnv fullRun)"
  have ok: "runExport sampleEnv fullRun = (None, ?s)"
    using sample_full_ok by (simp add: prod_eq_iff)
  have nc: "\<not> compactMode fullRun" by (simp add: fullRun_def)
  note m = full_run_executes_doctor[OF ok nc]
  have f: "failure (runCmd sampleEnv doctorCmd) = Some ''exit status 1''"
    by (simp add: sampleEnv_fields sample_failures)
  from doctor_failure_is_warning[OF ok m f]
  have "Warnings (result ?s) = [''brew doctor failed: exit status 1: Warning: outdated'']"
  proof (elim exE conjE)
    fix s1 s2 out
    assume o: "out = (if writeErr sampleEnv (length (report s1)) = None
             then combined (runCmd sampleEnv doctorCmd) else [])"
      and w: "Warnings (result s2) =
        [''brew doctor failed: '' @ ''exit status 1'' @
           (if TrimSpace out = [] then [] else '': '' @ TrimSpace out)]"
      and e: "Warnings (result ?s) = Warnings (result s2)"
    from o have "out = ''Warning: outdated\<newline>''"
      by (simp add: sampleEnv_fields sampleRun_def)
    then have "TrimSpace out = ''Warning: outdated''" by (simp only: sample_trim)
    with w e show ?thesis by simp
  qed
  with m f sample_full_ok show ?thesis by (intro conjI)
qed

section \<open>A failure of an inventory command\<close>







end
